theory Spec2Isabelle
  imports Complex_Main
begin

section \<open>Audio monitor: detected-event list\<close>

text \<open>
  Both variants of the audio monitoring module keep the detected events as the child
  nodes of the page element \<open>#detectedEventList\<close>. The child list can hold nodes the
  code did not create (markup of the page: text nodes, placeholder elements); the code
  reads it through \<open>firstChild\<close>/\<open>lastChild\<close> (all nodes) and through
  \<open>children\<close> (element nodes only).

  Classifier scores are JavaScript numbers compared with the literals \<open>0.78\<close> and
  \<open>0.90\<close>; they are modelled as rationals, compared exactly. Clock readings
  (\<open>Date.now()\<close>) are integers, in milliseconds.
\<close>

record detected_event =
  event_time :: int
  event_type :: string
  event_confidence :: rat

datatype node = EventElement detected_event | MarkupElement | TextNode

fun is_element :: "node \<Rightarrow> bool" where
  "is_element (EventElement e) = True"
| "is_element MarkupElement = True"
| "is_element TextNode = False"

definition children :: "node list \<Rightarrow> node list" where
  "children childNodes = filter is_element childNodes"

text \<open>
  \<^verbatim>\<open>while (detectedEventList.children.length > 10)
      detectedEventList.removeChild(detectedEventList.lastChild);\<close>
  The loop condition implies that a last child exists, so \<open>removeChild\<close> is never
  handed \<open>null\<close>.
\<close>

function keep_last_10 :: "node list \<Rightarrow> node list" where
  "keep_last_10 childNodes =
     (if length (children childNodes) > 10 then keep_last_10 (butlast childNodes)
      else childNodes)"
  by pat_completeness auto
termination
proof (relation "measure length")
  show "wf (measure length)" by simp
next
  fix childNodes :: "node list"
  assume "10 < length (children childNodes)"
  then have "childNodes \<noteq> []" by (auto simp: children_def)
  then show "(butlast childNodes, childNodes) \<in> measure length" by simp
qed

declare keep_last_10.simps [simp del]

text \<open>
  \<open>addDetectedEvent(label, confidence)\<close>; \<open>now\<close> is the reading of \<open>new Date()\<close>.
  The new element goes before the first child, or is appended when there is none.
\<close>

definition addDetectedEvent :: "string \<Rightarrow> rat \<Rightarrow> int \<Rightarrow> node list \<Rightarrow> node list" where
  "addDetectedEvent label confidence now childNodes =
     (let eventElement = EventElement
            \<lparr>event_time = now, event_type = label, event_confidence = confidence\<rparr>;
          inserted = (case childNodes of
                        firstChild # rest \<Rightarrow> eventElement # childNodes
                      | [] \<Rightarrow> childNodes @ [eventElement])
      in keep_last_10 inserted)"

text \<open>A sequence of \<open>addDetectedEvent\<close> calls, in call order.\<close>

definition addDetectedEvents :: "(string \<times> rat \<times> int) list \<Rightarrow> node list \<Rightarrow> node list" where
  "addDetectedEvents calls childNodes =
     fold (\<lambda>(label, confidence, now). addDetectedEvent label confidence now) calls childNodes"

section \<open>Audio monitor: detection pipeline (extended variant)\<close>

definition DETECTION_THRESHOLD :: rat where
  "DETECTION_THRESHOLD = 78 / 100"

definition ALERT_THRESHOLD :: rat where
  "ALERT_THRESHOLD = 90 / 100"

text \<open>The tracked labels: the keys of \<open>detectionActive\<close>, \<open>detectionStartTime\<close>,
  \<open>detectionTimeouts\<close> and \<open>detectionCounts\<close>.\<close>

datatype label = Cough | Snore

fun label_name :: "label \<Rightarrow> string" where
  "label_name Cough = ''cough''"
| "label_name Snore = ''snore''"

text \<open>
  The module's variables, together with what its effects leave behind:
  \<^item> \<open>alerts\<close>: the dialogs shown by \<open>alert(...)\<close>, oldest first, each with the label,
    the percentage shown and the \<open>currentTime\<close> of the call that raised it;
  \<^item> \<open>recordings\<close>: the calls of \<open>saveDetectionRecording\<close>;
  \<^item> \<open>timers\<close>: the browser's pending \<open>setTimeout\<close> callbacks, each with its handle,
    the label its closure resets, and the time it is due; \<open>nextTimer\<close> is the next
    fresh handle.
\<close>

record monitor =
  detectionActive :: "label \<Rightarrow> bool"
  detectionStartTime :: "label \<Rightarrow> int option"
  detectionTimeouts :: "label \<Rightarrow> nat option"
  detectionCounts :: "label \<Rightarrow> nat"
  totalDetections :: nat
  coughDetections :: nat
  detectedEventList :: "node list"
  alerts :: "(label \<times> int \<times> int) list"
  recordings :: "(label \<times> rat) list"
  timers :: "(nat \<times> label \<times> int) list"
  nextTimer :: nat

definition initial_monitor :: "node list \<Rightarrow> monitor" where
  "initial_monitor markup =
     \<lparr>detectionActive = (\<lambda>_. False),
      detectionStartTime = (\<lambda>_. None),
      detectionTimeouts = (\<lambda>_. None),
      detectionCounts = (\<lambda>_. 0),
      totalDetections = 0,
      coughDetections = 0,
      detectedEventList = markup,
      alerts = [],
      recordings = [],
      timers = [],
      nextTimer = 0\<rparr>"

text \<open>\<open>Math.round(score * 100)\<close>: the nearest integer, halves rounded up.\<close>

definition confidencePercent :: "rat \<Rightarrow> int" where
  "confidencePercent score = \<lfloor>score * 100 + 1 / 2\<rfloor>"

text \<open>\<open>clearTimeout(handle)\<close>: a handle that is no longer pending is ignored.\<close>

definition clearTimeout :: "nat \<Rightarrow> (nat \<times> label \<times> int) list \<Rightarrow> (nat \<times> label \<times> int) list" where
  "clearTimeout handle pending = filter (\<lambda>(h, l, due). h \<noteq> handle) pending"

text \<open>
  \<open>handleDetection(type, score)\<close>, with \<open>currentTime\<close> the reading of \<open>Date.now()\<close>.
  The call is taken as instantaneous: the dialog of \<open>alert\<close> blocks the script, which
  only moves the due time of the timer set at the end further away, and a timer is in
  any case only known to run no earlier than it is due.
\<close>

definition handleDetection :: "label \<Rightarrow> rat \<Rightarrow> int \<Rightarrow> monitor \<Rightarrow> monitor" where
  "handleDetection type score currentTime m =
     (let m1 = m\<lparr>totalDetections := totalDetections m + 1\<rparr>;
          m2 = (if type = Cough \<and> score \<ge> DETECTION_THRESHOLD
                then m1\<lparr>coughDetections := coughDetections m1 + 1\<rparr> else m1);
          m3 = (if score \<ge> ALERT_THRESHOLD \<and>
                   (\<not> detectionActive m2 type \<or>
                    (case detectionStartTime m2 type of
                       Some start \<Rightarrow> currentTime - start > 1000
                     | None \<Rightarrow> currentTime > 1000))
                then m2\<lparr>detectionActive := (detectionActive m2)(type := True),
                        detectionStartTime := (detectionStartTime m2)(type := Some currentTime),
                        alerts := alerts m2 @ [(type, confidencePercent score, currentTime)],
                        detectedEventList :=
                          addDetectedEvent (label_name type) score currentTime (detectedEventList m2),
                        detectionCounts :=
                          (detectionCounts m2)(type := detectionCounts m2 type + 1),
                        recordings := recordings m2 @ [(type, score)]\<rparr>
                else m2);
          cleared = (case detectionTimeouts m3 type of
                       Some handle \<Rightarrow> clearTimeout handle (timers m3)
                     | None \<Rightarrow> timers m3);
          handle' = nextTimer m3
      in m3\<lparr>detectionTimeouts := (detectionTimeouts m3)(type := Some handle'),
            timers := cleared @ [(handle', type, currentTime + 2000)],
            nextTimer := handle' + 1\<rparr>)"

text \<open>The callback of the timer set by \<open>handleDetection\<close>, run by the browser for the
  pending timer \<open>handle\<close>.\<close>

definition detectionTimeout :: "nat \<Rightarrow> label \<Rightarrow> monitor \<Rightarrow> monitor" where
  "detectionTimeout handle type m =
     m\<lparr>detectionActive := (detectionActive m)(type := False),
       detectionStartTime := (detectionStartTime m)(type := None),
       timers := clearTimeout handle (timers m)\<rparr>"

text \<open>
  One statement of the classifier callback,
  \<^verbatim>\<open>if (scoresByLabel[type] >= DETECTION_THRESHOLD) handleDetection(type, scoresByLabel[type]);\<close>
  where the score is \<open>None\<close> when the model has no such label (\<open>undefined >= 0.78\<close> is
  false).
\<close>

definition checkLabel :: "label \<Rightarrow> rat option \<Rightarrow> int \<Rightarrow> monitor \<Rightarrow> monitor" where
  "checkLabel type score now m =
     (case score of
        Some s \<Rightarrow> if s \<ge> DETECTION_THRESHOLD then handleDetection type s now m else m
      | None \<Rightarrow> m)"

text \<open>The callback registered with \<open>model.listen\<close>: cough first, then snore, each call of
  \<open>handleDetection\<close> with its own clock reading.\<close>

definition listenCallback :: "(label \<Rightarrow> rat option) \<Rightarrow> int \<Rightarrow> int \<Rightarrow> monitor \<Rightarrow> monitor" where
  "listenCallback scoresByLabel tCough tSnore m =
     checkLabel Snore (scoresByLabel Snore) tSnore
       (checkLabel Cough (scoresByLabel Cough) tCough m)"

text \<open>
  The states the monitor reaches, with the time of the last step: the clock does not run
  backwards, and a timer runs no earlier than it is due.
\<close>

inductive reachable :: "int \<Rightarrow> monitor \<Rightarrow> bool" where
  loaded: "reachable t (initial_monitor markup)"
| classified: "reachable t m \<Longrightarrow> t \<le> now \<Longrightarrow> reachable now (checkLabel type score now m)"
| timed_out: "reachable t m \<Longrightarrow> t \<le> now \<Longrightarrow> (handle, type, due) \<in> set (timers m) \<Longrightarrow>
     due \<le> now \<Longrightarrow> reachable now (detectionTimeout handle type m)"



text \<open>An alert for the label was raised within the 1000 milliseconds before \<open>now\<close>.\<close>

definition alerted_within_1000 :: "label \<Rightarrow> int \<Rightarrow> monitor \<Rightarrow> bool" where
  "alerted_within_1000 type now m \<longleftrightarrow>
     list_ex (\<lambda>(l, percent, t). l = type \<and> now - t \<le> 1000) (alerts m)"

text \<open>The condition under which \<open>handleDetection\<close> raises the alert, named for the proofs.\<close>

definition alerting :: "label \<Rightarrow> rat \<Rightarrow> int \<Rightarrow> monitor \<Rightarrow> bool" where
  "alerting type score now m \<longleftrightarrow>
     score \<ge> ALERT_THRESHOLD \<and>
     (\<not> detectionActive m type \<or>
      (case detectionStartTime m type of Some start \<Rightarrow> now - start > 1000 | None \<Rightarrow> now > 1000))"

definition alert_times :: "label \<Rightarrow> monitor \<Rightarrow> int set" where
  "alert_times type m = {t. \<exists>percent. (type, percent, t) \<in> set (alerts m)}"

text \<open>
  The invariant behind the debounce: no alert lies in the future; while a label is
  active its start time is the time of its latest alert; once the timer has reset it,
  every alert is at least 2000 ms old; a pending timer is the one whose handle the module
  holds, and is due no earlier than 2000 ms after every alert of its label.
\<close>

definition clock_inv :: "int \<Rightarrow> monitor \<Rightarrow> bool" where
  "clock_inv t m \<longleftrightarrow> (\<forall>l. \<forall>ta \<in> alert_times l m. ta \<le> t)"

definition active_inv :: "monitor \<Rightarrow> bool" where
  "active_inv m \<longleftrightarrow>
     (\<forall>l. detectionActive m l \<longrightarrow>
        (\<exists>start. detectionStartTime m l = Some start \<and> start \<in> alert_times l m \<and>
           (\<forall>ta \<in> alert_times l m. ta \<le> start)))"

definition idle_inv :: "int \<Rightarrow> monitor \<Rightarrow> bool" where
  "idle_inv t m \<longleftrightarrow>
     (\<forall>l. \<not> detectionActive m l \<longrightarrow> (\<forall>ta \<in> alert_times l m. ta + 2000 \<le> t))"

definition timer_inv :: "monitor \<Rightarrow> bool" where
  "timer_inv m \<longleftrightarrow>
     (\<forall>(h, l, due) \<in> set (timers m).
        detectionTimeouts m l = Some h \<and> (\<forall>ta \<in> alert_times l m. ta + 2000 \<le> due))"

definition debounce_inv :: "int \<Rightarrow> monitor \<Rightarrow> bool" where
  "debounce_inv t m \<longleftrightarrow> clock_inv t m \<and> active_inv m \<and> idle_inv t m \<and> timer_inv m"

section \<open>Audio monitor: classifier callback of the simple variant\<close>

text \<open>\<open>Array.prototype.indexOf\<close>: the first index of the value, \<open>-1\<close> when it is absent.\<close>

fun indexOf :: "rat list \<Rightarrow> rat \<Rightarrow> int" where
  "indexOf [] v = -1"
| "indexOf (x # xs) v =
     (if x = v then 0 else (let k = indexOf xs v in if k < 0 then -1 else k + 1))"

text \<open>
  The callback of the variant without tracked labels: it logs the label with the highest
  score. \<open>Math.max()\<close> of no scores is \<open>-Infinity\<close>, below the threshold; a label index
  outside \<open>wordLabels\<close> reads \<open>undefined\<close>, which the element shows as text.
\<close>

definition simpleListenCallback :: "string list \<Rightarrow> rat list \<Rightarrow> int \<Rightarrow> node list \<Rightarrow> node list" where
  "simpleListenCallback wordLabels scores now childNodes =
     (case scores of
        [] \<Rightarrow> childNodes
      | s # rest \<Rightarrow>
          (let maxScore = fold max rest s;
               maxIndex = indexOf scores maxScore;
               label = (if 0 \<le> maxIndex \<and> nat maxIndex < length wordLabels
                        then wordLabels ! nat maxIndex else ''undefined'')
           in if maxScore \<ge> DETECTION_THRESHOLD
              then addDetectedEvent label maxScore now childNodes else childNodes))"

section \<open>Audio monitor: microphone streams and audio contexts\<close>

text \<open>
  The variables \<open>audioContext\<close>, \<open>microphone\<close> and \<open>isListening\<close> of the module, and
  the media objects it has created: every \<open>AudioContext\<close> and every \<open>MediaStream\<close>
  is named by a number, in order of creation. \<open>openContexts\<close> are the contexts not
  closed, \<open>activeStreams\<close> the streams whose tracks have not been stopped, and
  \<open>recorders\<close> the streams of the recordings whose 3-second timer is pending. The source
  node \<open>microphone\<close> is named by the stream it reads.
\<close>

record audio_page =
  audioContext :: "nat option"
  microphone :: "nat option"
  isListening :: bool
  audioStatus :: string
  openContexts :: "nat list"
  createdContexts :: nat
  activeStreams :: "nat list"
  acquiredStreams :: nat
  recorders :: "nat list"

definition initial_audio_page :: audio_page where
  "initial_audio_page =
     \<lparr>audioContext = None, microphone = None, isListening = False, audioStatus = [],
      openContexts = [], createdContexts = 0, activeStreams = [], acquiredStreams = 0,
      recorders = []\<rparr>"

text \<open>\<open>new AudioContext()\<close>, assigned to \<open>audioContext\<close>; the context the variable held
  before is not closed.\<close>

definition newAudioContext :: "audio_page \<Rightarrow> audio_page" where
  "newAudioContext a =
     a\<lparr>audioContext := Some (createdContexts a),
       openContexts := openContexts a @ [createdContexts a],
       createdContexts := createdContexts a + 1\<rparr>"

text \<open>A granted \<open>getUserMedia({ audio: true })\<close>: a new stream with live tracks.\<close>

definition acquireStream :: "audio_page \<Rightarrow> audio_page" where
  "acquireStream a =
     a\<lparr>activeStreams := activeStreams a @ [acquiredStreams a],
       acquiredStreams := acquiredStreams a + 1\<rparr>"

text \<open>
  \<open>initAudioMonitoring\<close> up to the call of \<open>setupAudioProcessing\<close>, which requests the
  microphone and returns; \<open>loaded\<close> says whether the classifier model loaded.
\<close>

definition initAudioMonitoring :: "bool \<Rightarrow> audio_page \<Rightarrow> audio_page" where
  "initAudioMonitoring loaded a =
     (if loaded then (newAudioContext a)\<lparr>audioStatus := ''Ready to monitor''\<rparr>
      else a\<lparr>audioStatus := ''Error initializing audio''\<rparr>)"

text \<open>
  The promise of \<open>setupAudioProcessing\<close>, settled: when the microphone is granted the
  stream exists, and \<open>createMediaStreamSource\<close> throws on a closed context, which lands
  in the same \<open>catch\<close> as a refusal.
\<close>

definition setupAudioProcessing_settled :: "bool \<Rightarrow> audio_page \<Rightarrow> audio_page" where
  "setupAudioProcessing_settled granted a =
     (if granted then
        (let a1 = acquireStream a in
         case audioContext a1 of
           Some c \<Rightarrow>
             if c \<in> set (openContexts a1) then a1\<lparr>microphone := Some (acquiredStreams a)\<rparr>
             else a1\<lparr>audioStatus := ''Microphone access denied''\<rparr>
         | None \<Rightarrow> a1\<lparr>audioStatus := ''Microphone access denied''\<rparr>)
      else a\<lparr>audioStatus := ''Microphone access denied''\<rparr>)"

text \<open>How the start branch of \<open>toggleAudioMonitoring\<close> goes: the microphone is refused,
  or granted and \<open>model.listen\<close> throws, or both succeed. The message is the error's.\<close>

datatype start_outcome = MicrophoneDenied string | ListenFailed string | Started

text \<open>
  \<open>toggleAudioMonitoring\<close>. The stop branch disconnects the source node and closes the
  context held in \<open>audioContext\<close>; it calls \<open>stop()\<close> on no track. Each branch is
  taken as one step.
\<close>

definition toggleAudioMonitoring :: "start_outcome \<Rightarrow> audio_page \<Rightarrow> audio_page" where
  "toggleAudioMonitoring outcome a =
     (if isListening a then
        (let closed = (case audioContext a of
                         Some c \<Rightarrow> a\<lparr>openContexts := removeAll c (openContexts a)\<rparr>
                       | None \<Rightarrow> a)
         in closed\<lparr>isListening := False, audioStatus := ''Monitoring stopped''\<rparr>)
      else
        (let a1 = newAudioContext a in
         case outcome of
           MicrophoneDenied message \<Rightarrow>
             a1\<lparr>audioStatus := ''Error: '' @ message, isListening := False\<rparr>
         | ListenFailed message \<Rightarrow>
             (acquireStream a1)\<lparr>microphone := Some (acquiredStreams a1),
                                audioStatus := ''Error: '' @ message, isListening := False\<rparr>
         | Started \<Rightarrow>
             (acquireStream a1)\<lparr>microphone := Some (acquiredStreams a1),
                                isListening := True,
                                audioStatus := ''Listening for sounds...''\<rparr>))"

text \<open>
  \<open>saveDetectionRecording\<close>, called by \<open>handleDetection\<close> for every alert: it asks for a
  microphone stream of its own and records it for 3 seconds; a refusal is logged only.
  \<open>recordingTimeout\<close> is the callback of its timer, which stops the recorder and the
  tracks of that stream.
\<close>

definition saveDetectionRecording :: "bool \<Rightarrow> audio_page \<Rightarrow> audio_page" where
  "saveDetectionRecording granted a =
     (if granted then (acquireStream a)\<lparr>recorders := recorders a @ [acquiredStreams a]\<rparr>
      else a)"

definition recordingTimeout :: "nat \<Rightarrow> audio_page \<Rightarrow> audio_page" where
  "recordingTimeout stream a =
     a\<lparr>activeStreams := removeAll stream (activeStreams a),
       recorders := removeAll stream (recorders a)\<rparr>"

section \<open>Fall detection: the live camera feed\<close>

text \<open>
  \<open>videoStream\<close> is \<open>window.videoStream\<close>, \<open>srcObject\<close> and \<open>feedShown\<close> belong to the
  element \<open>#videoFeed\<close>. \<open>cameraStreams\<close> are the camera streams whose tracks have not
  been stopped, named in order of acquisition; \<open>pendingCamera\<close> counts the calls of
  \<open>toggleVideoFeed\<close> suspended at \<open>await getUserMedia\<close>.
\<close>

record video_page =
  videoStream :: "nat option"
  srcObject :: "nat option"
  feedShown :: bool
  liveFeedStatus :: string
  captureControlsShown :: bool
  pendingCamera :: nat
  cameraStreams :: "nat list"
  acquiredCameras :: nat

definition initial_video_page :: video_page where
  "initial_video_page =
     \<lparr>videoStream = None, srcObject = None, feedShown = False,
      liveFeedStatus = ''Click \"Start Live Feed\" to begin camera feed.'',
      captureControlsShown = False, pendingCamera = 0, cameraStreams = [],
      acquiredCameras = 0\<rparr>"

text \<open>\<open>stopVideoFeed\<close>: every track of the held stream is stopped, then the handle and
  the element are cleared.\<close>

definition stopVideoFeed :: "video_page \<Rightarrow> video_page" where
  "stopVideoFeed v =
     (let v1 = (case videoStream v of
                  Some s \<Rightarrow> v\<lparr>cameraStreams := removeAll s (cameraStreams v), videoStream := None\<rparr>
                | None \<Rightarrow> v)
      in v1\<lparr>srcObject := None, feedShown := False\<rparr>)"

text \<open>\<open>toggleVideoFeed\<close> up to its \<open>await\<close>: with a stream held it stops the feed and
  returns; with none it asks for the camera and is suspended.\<close>

definition toggleVideoFeed_begin :: "video_page \<Rightarrow> video_page" where
  "toggleVideoFeed_begin v =
     (if videoStream v \<noteq> None then
        (stopVideoFeed v)\<lparr>liveFeedStatus := ''Live feed stopped. Click \"Start Live Feed\" to begin.'',
                          captureControlsShown := False\<rparr>
      else v\<lparr>pendingCamera := pendingCamera v + 1\<rparr>)"

text \<open>\<open>toggleVideoFeed\<close> after its \<open>await\<close>: the camera stream (\<open>None\<close>), or the message of
  the error \<open>getUserMedia\<close> rejected with.\<close>

definition toggleVideoFeed_resume :: "string option \<Rightarrow> video_page \<Rightarrow> video_page" where
  "toggleVideoFeed_resume refused v =
     (case refused of
        None \<Rightarrow>
          v\<lparr>pendingCamera := pendingCamera v - 1,
            cameraStreams := cameraStreams v @ [acquiredCameras v],
            acquiredCameras := acquiredCameras v + 1,
            videoStream := Some (acquiredCameras v),
            srcObject := Some (acquiredCameras v),
            feedShown := True,
            liveFeedStatus := ''Live feed is active. Click \"Capture Image\" to take a photo.'',
            captureControlsShown := True\<rparr>
      | Some message \<Rightarrow>
          v\<lparr>pendingCamera := pendingCamera v - 1,
            liveFeedStatus := ''Error: Could not access camera. '' @ message\<rparr>)"

text \<open>The click handlers that stop the feed: the mode button \<open>#liveFeedBtn\<close> and the
  retry button of the error panel.\<close>

definition stopIfStreaming :: "video_page \<Rightarrow> video_page" where
  "stopIfStreaming v = (if videoStream v \<noteq> None then stopVideoFeed v else v)"

text \<open>
  The states of the live feed. The start button is never disabled, so a call of
  \<open>toggleVideoFeed\<close> can begin while another is suspended at its \<open>await\<close>; a suspended
  call goes on when its camera request settles.
\<close>

inductive video_reachable :: "video_page \<Rightarrow> bool" where
  created: "video_reachable initial_video_page"
| toggled: "video_reachable v \<Longrightarrow> video_reachable (toggleVideoFeed_begin v)"
| settled: "video_reachable v \<Longrightarrow> pendingCamera v > 0 \<Longrightarrow>
     video_reachable (toggleVideoFeed_resume refused v)"
| stopped: "video_reachable v \<Longrightarrow> video_reachable (stopIfStreaming v)"

section \<open>Registration form\<close>

text \<open>
  Strings are lists of 8-bit characters, read as the code units of the JavaScript string;
  \<open>length\<close> is then the string's \<open>.length\<close>. An empty string is the falsy one.

  \<open>parseInt(string)\<close> with no radix: leading white space is skipped, a sign is read, then
  a \<open>0x\<close>/\<open>0X\<close> prefix (radix 16), then the longest run of digits of the radix; with no
  digit the result is \<open>NaN\<close>, here \<open>None\<close>. The integer is kept exact: the Number
  JavaScript returns may be rounded, but it is zero, or \<open>NaN\<close>, exactly when this one is.
\<close>

definition isWhiteSpace :: "char \<Rightarrow> bool" where
  "isWhiteSpace c \<longleftrightarrow> (of_char c :: nat) \<in> {9, 10, 11, 12, 13, 32, 160}"

definition digitValue :: "char \<Rightarrow> nat option" where
  "digitValue c =
     (let n = (of_char c :: nat) in
      if 48 \<le> n \<and> n \<le> 57 then Some (n - 48)
      else if 97 \<le> n \<and> n \<le> 122 then Some (n - 87)
      else if 65 \<le> n \<and> n \<le> 90 then Some (n - 55)
      else None)"

definition isRadixDigit :: "nat \<Rightarrow> char \<Rightarrow> bool" where
  "isRadixDigit radix c = (case digitValue c of Some d \<Rightarrow> d < radix | None \<Rightarrow> False)"

definition digitsValue :: "nat \<Rightarrow> string \<Rightarrow> nat" where
  "digitsValue radix z = foldl (\<lambda>acc c. acc * radix + the (digitValue c)) 0 z"

definition parseInt :: "string \<Rightarrow> int option" where
  "parseInt inputString =
     (let s = dropWhile isWhiteSpace inputString;
          (sign, s1) = (case s of
                          c # r \<Rightarrow> if c = CHR ''-'' then (-1, r)
                                   else if c = CHR ''+'' then (1, r) else (1, s)
                        | [] \<Rightarrow> (1 :: int, s));
          (radix, s2) = (case s1 of
                           c # x # r \<Rightarrow>
                             if c = CHR ''0'' \<and> (x = CHR ''x'' \<or> x = CHR ''X'') then (16, r)
                             else (10, s1)
                         | _ \<Rightarrow> (10 :: nat, s1));
          z = takeWhile (isRadixDigit radix) s2
      in if z = [] then None else Some (sign * int (digitsValue radix z)))"

text \<open>The values of the named controls of one \<open>.care-recipient\<close> block;
  \<open>recipient_report\<close> is the \<open>files\<close> list of the file input, \<open>None\<close> when the block has
  no such input.\<close>

record recipient_div =
  recipient_name :: string
  recipient_email :: string
  recipient_phone :: string
  recipient_age :: string
  recipient_gender :: string
  recipient_condition :: string
  recipient_report :: "string list option"

text \<open>The object built for a block; \<open>age\<close> is the result of \<open>parseInt\<close>.\<close>

record care_recipient =
  r_full_name :: string
  r_email :: string
  r_phone_number :: string
  r_age :: "int option"
  r_gender :: string
  r_respiratory_condition_status :: bool

text \<open>\<open>formData\<close>: the caretaker's inputs, and the recipients collected so far.\<close>

record form_data =
  full_name :: string
  email :: string
  username :: string
  phone_number :: string
  password :: string
  care_recipients :: "care_recipient list"

definition recipient_of :: "recipient_div \<Rightarrow> care_recipient" where
  "recipient_of d =
     \<lparr>r_full_name = recipient_name d,
      r_email = recipient_email d,
      r_phone_number = recipient_phone d,
      r_age = parseInt (recipient_age d),
      r_gender = recipient_gender d,
      r_respiratory_condition_status = (recipient_condition d = ''true'')\<rparr>"

text \<open>The checks of the loop body on one block, in the order of the source: the gender
  first, then the \<open>if\<close>/\<open>else if\<close> chain over the object. \<open>!age || isNaN(age)\<close> holds
  for zero and for \<open>NaN\<close>.\<close>

definition phone_rejected :: "string \<Rightarrow> bool" where
  "phone_rejected phone \<longleftrightarrow> phone = [] \<or> length phone \<noteq> 10"

definition age_rejected :: "int option \<Rightarrow> bool" where
  "age_rejected age \<longleftrightarrow> (case age of None \<Rightarrow> True | Some n \<Rightarrow> n = 0)"

definition validate_div :: "recipient_div \<Rightarrow> string option" where
  "validate_div d =
     (if recipient_gender d = [] then Some ''Please select a gender for all care recipients''
      else let recipient = recipient_of d in
        if r_full_name recipient = [] then Some ''Full name is required for all care recipients''
        else if r_email recipient = [] then Some ''Email is required for all care recipients''
        else if phone_rejected (r_phone_number recipient)
          then Some ''Valid 10-digit phone number is required for all care recipients''
        else if age_rejected (r_age recipient)
          then Some ''Valid age is required for all care recipients''
        else None)"

text \<open>The \<open>forEach\<close> over the blocks, with its two variables: \<open>validationError\<close> and
  the recipients pushed so far. Once an error is set every later block is skipped.\<close>

fun validate_divs :: "recipient_div list \<Rightarrow> string option \<times> care_recipient list
    \<Rightarrow> string option \<times> care_recipient list" where
  "validate_divs [] state = state"
| "validate_divs (d # divs) (validationError, pushed) =
     (if validationError \<noteq> None then validate_divs divs (validationError, pushed)
      else case validate_div d of
             Some message \<Rightarrow> validate_divs divs (Some message, pushed)
           | None \<Rightarrow> validate_divs divs (None, pushed @ [recipient_of d]))"

text \<open>The validation part of the submit handler: the error thrown, or the payload.\<close>

definition validate_form :: "form_data \<Rightarrow> recipient_div list \<Rightarrow> string + form_data" where
  "validate_form formData recipientDivs =
     (if full_name formData = [] \<or> email formData = [] \<or> username formData = [] \<or>
         phone_number formData = [] \<or> password formData = []
      then Inl ''Please fill out all the main caretaker fields.''
      else case validate_divs recipientDivs (None, care_recipients formData) of
             (Some validationError, pushed) \<Rightarrow> Inl validationError
           | (None, pushed) \<Rightarrow> Inr (formData\<lparr>care_recipients := pushed\<rparr>))"

text \<open>
  The requests the handler sends, and the answers it can get. A rejected \<open>fetch\<close> (or a
  body that is not JSON) carries the error's message. An upload names the recipient id of
  its URL, the file, and the token read from \<open>localStorage\<close> for its header.
\<close>

datatype request = Signup form_data | ReportUpload nat string "string option"

record signup_result =
  access_token :: "string option"
  created_recipients :: "nat list option"

datatype signup_response =
  SignupRejected string
| SignupResponse bool "string option" "signup_result option"

datatype upload_response = UploadRejected string | UploadRefused "string option" | UploadAccepted

text \<open>
  The upload loop
  \<^verbatim>\<open>for (let i = 0; i < recipientDivsAfter.length && i < createdRecipients.length; i++)\<close>
  from index \<open>i\<close> on: the requests sent, and the message of the error thrown, if any.
  \<open>answers i\<close> is the answer to the upload of block \<open>i\<close>.
\<close>

definition upload_error :: "upload_response \<Rightarrow> string option" where
  "upload_error answer =
     (case answer of
        UploadAccepted \<Rightarrow> None
      | UploadRejected message \<Rightarrow> Some (''Failed to upload medical report: '' @ message)
      | UploadRefused detail \<Rightarrow>
          Some (''Failed to upload medical report: '' @ ''Failed to upload report: '' @
                (case detail of
                   Some text \<Rightarrow> if text = [] then ''Unknown error'' else text
                 | None \<Rightarrow> ''Unknown error'')))"

function upload_reports :: "nat \<Rightarrow> recipient_div list \<Rightarrow> nat list \<Rightarrow> (nat \<Rightarrow> upload_response)
    \<Rightarrow> string option \<Rightarrow> request list \<times> string option" where
  "upload_reports i recipientDivsAfter createdRecipients answers token =
     (if i < length recipientDivsAfter \<and> i < length createdRecipients then
        (case recipient_report (recipientDivsAfter ! i) of
           Some (file # others) \<Rightarrow>
             (let sent = ReportUpload (createdRecipients ! i) file token in
              case upload_error (answers i) of
                Some message \<Rightarrow> ([sent], Some message)
              | None \<Rightarrow>
                  (let (later, thrown) =
                         upload_reports (i + 1) recipientDivsAfter createdRecipients answers token
                   in (sent # later, thrown)))
         | _ \<Rightarrow> upload_reports (i + 1) recipientDivsAfter createdRecipients answers token)
      else ([], None))"
  by pat_completeness auto
termination
  by (relation "measure (\<lambda>(i, recipientDivsAfter, createdRecipients, answers, token).
        length recipientDivsAfter - i)") auto

declare upload_reports.simps [simp del]

text \<open>What a submission leaves behind: the dialogs shown, the requests sent, the token in
  \<open>localStorage\<close>, and whether the page went on to \<open>profile.html\<close>.\<close>

record submission =
  shown :: "string list"
  sent :: "request list"
  stored_token :: "string option"
  redirected :: bool

text \<open>The \<open>catch\<close> of the handler: an error with a message is shown as it is.\<close>

definition error_alert :: "string \<Rightarrow> string" where
  "error_alert message =
     (if message \<noteq> [] then message
      else ''An error occurred. Please check the browser console for details.'')"

text \<open>
  The submit handler. \<open>formData\<close> holds the caretaker's inputs as the handler reads them,
  \<open>recipientDivs\<close> the blocks at that moment and \<open>recipientDivsAfter\<close> the blocks found
  by the second query, after the signup call has returned; \<open>token\<close> is what
  \<open>localStorage\<close> held before.
\<close>

definition submit_handler :: "form_data \<Rightarrow> recipient_div list \<Rightarrow> signup_response \<Rightarrow>
    recipient_div list \<Rightarrow> (nat \<Rightarrow> upload_response) \<Rightarrow> string option \<Rightarrow> submission" where
  "submit_handler formData recipientDivs answer recipientDivsAfter answers token =
     (let begun = \<lparr>shown = [''Registering... Please wait.''], sent = [], stored_token = token,
                   redirected = False\<rparr>
      in case validate_form formData recipientDivs of
           Inl message \<Rightarrow> begun\<lparr>shown := shown begun @ [error_alert message]\<rparr>
         | Inr payload \<Rightarrow>
             (let asked = begun\<lparr>sent := [Signup payload]\<rparr> in
              case answer of
                SignupRejected message \<Rightarrow> asked\<lparr>shown := shown asked @ [error_alert message]\<rparr>
              | SignupResponse ok detail result \<Rightarrow>
                  if \<not> ok then
                    asked\<lparr>shown := shown asked @
                      [case detail of
                         Some text \<Rightarrow> if text = [] then ''Registration failed. Please try again.''
                                      else text
                       | None \<Rightarrow> ''Registration failed. Please try again.'']\<rparr>
                  else
                    (let newToken = (case result of Some r \<Rightarrow> access_token r | None \<Rightarrow> None);
                         stored = (case newToken of
                                     Some t \<Rightarrow> if t = [] then token else Some t
                                   | None \<Rightarrow> token);
                         createdRecipients =
                           (case result of
                              Some r \<Rightarrow> (case created_recipients r of Some ids \<Rightarrow> ids | None \<Rightarrow> [])
                            | None \<Rightarrow> []);
                         (uploads, thrown) =
                           upload_reports 0 recipientDivsAfter createdRecipients answers stored;
                         uploaded = asked\<lparr>stored_token := stored, sent := sent asked @ uploads\<rparr>
                     in case thrown of
                          Some message \<Rightarrow> uploaded\<lparr>shown := shown uploaded @ [error_alert message]\<rparr>
                        | None \<Rightarrow>
                            uploaded\<lparr>shown := shown uploaded @
                              [''Registration successful! You are now logged in. Redirecting to dashboard.''],
                              redirected := True\<rparr>)))"

text \<open>The upload the loop makes for block \<open>i\<close>: one request when the block has a file,
  to the id at the same index; \<open>paired_uploads\<close> are those of the first
  \<open>min\<close> (blocks, created recipients) blocks, in page order.\<close>

definition upload_of :: "recipient_div list \<Rightarrow> nat list \<Rightarrow> string option \<Rightarrow> nat \<Rightarrow> request list" where
  "upload_of recipientDivsAfter createdRecipients token i =
     (case recipient_report (recipientDivsAfter ! i) of
        Some (file # others) \<Rightarrow> [ReportUpload (createdRecipients ! i) file token]
      | _ \<Rightarrow> [])"

definition paired_uploads :: "recipient_div list \<Rightarrow> nat list \<Rightarrow> string option \<Rightarrow> request list" where
  "paired_uploads recipientDivsAfter createdRecipients token =
     concat (map (upload_of recipientDivsAfter createdRecipients token)
                 [0 ..< min (length recipientDivsAfter) (length createdRecipients)])"

text \<open>A filled-in form, for the examples: a caretaker and one recipient block that
  passes every check.\<close>

definition sample_caretaker :: form_data where
  "sample_caretaker =
     \<lparr>full_name = ''Kim Lee'', email = ''kim@example.org'', username = ''kim'',
      phone_number = ''5550100'', password = ''secret'', care_recipients = []\<rparr>"

definition sample_recipient :: recipient_div where
  "sample_recipient =
     \<lparr>recipient_name = ''Ann Lee'', recipient_email = ''ann@example.org'',
      recipient_phone = ''0123456789'', recipient_age = ''70'', recipient_gender = ''female'',
      recipient_condition = ''true'', recipient_report = Some [''report.pdf'']\<rparr>"

section \<open>Fall detection: polling a processing job\<close>

text \<open>
  What the status endpoint can answer to one poll: the \<open>fetch\<close> is rejected or the body
  is not JSON (with the error's message), the HTTP status is not ok, or a JSON object with
  its \<open>status\<close> text, its \<open>progress\<close> when it has one, and its \<open>message\<close>. The result
  endpoint answers likewise, with the number of falls it lists. What is drawn from a
  result is kept to that number: the helpers that format it (\<open>formatDuration\<close>,
  \<open>formatTime\<close>) are not in the source file as it stands.
\<close>

datatype status_response =
  StatusRejected string
| StatusFailed nat
| StatusData string "nat option" "string option"

datatype results_response = ResultsRejected string | ResultsFailed nat | ResultsData nat

text \<open>The text handed to \<open>showError\<close>: a message, or one of the two messages built
  from an HTTP status.\<close>

datatype error_text = Message string | FailedToGetStatus nat | FailedToGetResults nat

text \<open>What the page does, in order: the two kinds of request, the timer it sets, and what
  it renders.\<close>

datatype ui_action =
  FetchStatus
| FetchResults
| SetTimeout nat
| ShowProgress nat string
| RenderResults nat
| ShowError error_text

text \<open>\<open>x || fallback\<close> on a text that may be missing: an empty text is falsy.\<close>

definition or_default :: "string option \<Rightarrow> string \<Rightarrow> string" where
  "or_default text fallback =
     (case text of Some t \<Rightarrow> if t = [] then fallback else t | None \<Rightarrow> fallback)"

text \<open>\<open>showProcessingResults\<close>: one request to the results endpoint; its own \<open>catch\<close>
  shows any error, so nothing is thrown to the caller.\<close>

definition showProcessingResults :: "results_response \<Rightarrow> ui_action list" where
  "showProcessingResults results =
     FetchResults #
       (case results of
          ResultsRejected message \<Rightarrow>
            [ShowError (Message (or_default (Some message) ''Failed to get processing results''))]
        | ResultsFailed code \<Rightarrow> [ShowError (FailedToGetResults code)]
        | ResultsData falls \<Rightarrow> [RenderResults falls])"

text \<open>The progress bar is redrawn when the answer has a \<open>progress\<close>.\<close>

definition progress_shown :: "status_response \<Rightarrow> ui_action list" where
  "progress_shown answer =
     (case answer of
        StatusData status (Some progress) message \<Rightarrow>
          [ShowProgress progress (or_default message ''Processing...'')]
      | _ \<Rightarrow> [])"

text \<open>
  \<open>pollProcessingStatus\<close>, run against the answers the status endpoint gives to the
  successive polls. Each call sends one request; with no answer left the request is
  pending and nothing follows. On any status other than \<open>completed\<close> and \<open>error\<close> the
  function sets a timer of 2000 ms that calls it again.
\<close>

fun pollProcessingStatus :: "status_response list \<Rightarrow> results_response \<Rightarrow> ui_action list" where
  "pollProcessingStatus [] results = [FetchStatus]"
| "pollProcessingStatus (answer # later) results =
     FetchStatus #
       (case answer of
          StatusRejected message \<Rightarrow>
            [ShowError (Message (or_default (Some message) ''Error checking processing status''))]
        | StatusFailed code \<Rightarrow> [ShowError (FailedToGetStatus code)]
        | StatusData status progress message \<Rightarrow>
            progress_shown answer @
              (if status = ''completed'' then showProcessingResults results
               else if status = ''error''
                 then [ShowError (Message (or_default (Some (or_default message ''Processing failed''))
                                             ''Error checking processing status''))]
               else SetTimeout 2000 # pollProcessingStatus later results))"

text \<open>An answer after which polling goes on: a status object whose status is neither
  \<open>completed\<close> nor \<open>error\<close>.\<close>

fun still_processing :: "status_response \<Rightarrow> bool" where
  "still_processing (StatusData status progress message) =
     (status \<noteq> ''completed'' \<and> status \<noteq> ''error'')"
| "still_processing _ = False"

text \<open>One round of polling that goes on: the request, the progress, the 2000 ms timer.\<close>

definition polling_round :: "status_response \<Rightarrow> ui_action list" where
  "polling_round answer = FetchStatus # progress_shown answer @ [SetTimeout 2000]"

section \<open>Face registration\<close>
















section \<open>Properties of the detected-event list\<close>

lemma keep_last_10_length: "length (children (keep_last_10 childNodes)) \<le> 10"
proof (induction childNodes rule: keep_last_10.induct)
  case (1 childNodes)
  then show ?case by (subst keep_last_10.simps) auto
qed

lemma keep_last_10_take: "\<exists>k. keep_last_10 childNodes = take k childNodes"
proof (induction childNodes rule: keep_last_10.induct)
  case (1 childNodes)
  show ?case
  proof (cases "10 < length (children childNodes)")
    case True
    with 1 obtain k where "keep_last_10 (butlast childNodes) = take k (butlast childNodes)" by blast
    then have "keep_last_10 childNodes = take (min k (length childNodes - 1)) childNodes"
      using True by (subst keep_last_10.simps) (simp add: butlast_conv_take min.commute)
    then show ?thesis by blast
  next
    case False
    then have "keep_last_10 childNodes = take (length childNodes) childNodes"
      by (subst keep_last_10.simps) simp
    then show ?thesis by blast
  qed
qed

lemma keep_last_10_below: "length (children childNodes) \<le> 10 \<Longrightarrow> keep_last_10 childNodes = childNodes"
  by (subst keep_last_10.simps) simp

lemma children_butlast:
  "childNodes \<noteq> [] \<Longrightarrow>
   children (butlast childNodes) =
     (if is_element (last childNodes) then butlast (children childNodes) else children childNodes)"
proof -
  assume "childNodes \<noteq> []"
  then obtain xs x where "childNodes = xs @ [x]" by (cases childNodes rule: rev_cases) auto
  then show ?thesis by (simp add: children_def)
qed

lemma children_keep_last_10: "children (keep_last_10 childNodes) = take 10 (children childNodes)"
proof (induction childNodes rule: keep_last_10.induct)
  case (1 childNodes)
  show ?case
  proof (cases "10 < length (children childNodes)")
    case False
    then show ?thesis by (simp add: keep_last_10_below)
  next
    case True
    then have ne: "childNodes \<noteq> []" by (auto simp: children_def)
    have "take 10 (children (butlast childNodes)) = take 10 (children childNodes)"
      using True by (simp add: children_butlast [OF ne] take_butlast)
    moreover have "keep_last_10 childNodes = keep_last_10 (butlast childNodes)"
      using True by (subst keep_last_10.simps) simp
    ultimately show ?thesis using "1.IH" [OF True] by simp
  qed
qed

lemma keep_last_10_Cons:
  "is_element e \<Longrightarrow> \<exists>rest. keep_last_10 (e # childNodes) = e # rest"
proof (induction childNodes rule: rev_induct)
  case Nil
  then show ?case by (subst keep_last_10.simps) (simp add: children_def)
next
  case (snoc x xs)
  then show ?case by (subst keep_last_10.simps) (auto simp: butlast_append)
qed

lemma addDetectedEvent_head:
  "\<exists>rest. addDetectedEvent label confidence now childNodes =
     EventElement \<lparr>event_time = now, event_type = label, event_confidence = confidence\<rparr> # rest"
  using keep_last_10_Cons [of "EventElement \<lparr>event_time = now, event_type = label, event_confidence = confidence\<rparr>"]
  by (cases childNodes) (simp_all add: addDetectedEvent_def)

lemma addDetectedEvent_prefix:
  "\<exists>k. addDetectedEvent label confidence now childNodes =
     take k (EventElement \<lparr>event_time = now, event_type = label, event_confidence = confidence\<rparr>
             # childNodes)"
  using keep_last_10_take by (cases childNodes) (simp_all add: addDetectedEvent_def)

lemma addDetectedEvent_inserted:
  "addDetectedEvent label confidence now childNodes =
     keep_last_10 (EventElement \<lparr>event_time = now, event_type = label, event_confidence = confidence\<rparr>
                   # childNodes)"
  by (cases childNodes) (simp_all add: addDetectedEvent_def)

lemma addDetectedEvent_children:
  "children (addDetectedEvent label confidence now childNodes) =
     take 10 (EventElement \<lparr>event_time = now, event_type = label, event_confidence = confidence\<rparr>
              # children childNodes)"
  by (simp add: addDetectedEvent_inserted children_keep_last_10) (simp add: children_def)

lemma addDetectedEvent_below:
  "length (children childNodes) < 10 \<Longrightarrow>
   addDetectedEvent label confidence now childNodes =
     EventElement \<lparr>event_time = now, event_type = label, event_confidence = confidence\<rparr> # childNodes"
  by (simp add: addDetectedEvent_inserted keep_last_10_below children_def)

lemma addDetectedEvent_length: "length (children (addDetectedEvent label confidence now childNodes)) \<le> 10"
  by (simp add: addDetectedEvent_def Let_def keep_last_10_length)

lemma addDetectedEvents_snoc:
  "addDetectedEvents (calls @ [(label, confidence, now)]) markup =
     addDetectedEvent label confidence now (addDetectedEvents calls markup)"
  by (simp add: addDetectedEvents_def)

lemma addDetectedEvents_length:
  "length (children markup) \<le> 10 \<Longrightarrow> length (children (addDetectedEvents calls markup)) \<le> 10"
proof (induction calls rule: rev_induct)
  case Nil
  then show ?case by (simp add: addDetectedEvents_def)
next
  case (snoc c calls)
  obtain l s t where "c = (l, s, t)" by (cases c) auto
  then show ?case by (simp add: addDetectedEvents_snoc addDetectedEvent_length)
qed

text \<open>
  Claim C3. After every sequence of \<open>addDetectedEvent\<close> calls the list is the bounded,
  most-recent-first list of capacity 10. After a non-empty sequence, whatever the page's
  markup put in the list: the elements of the list are exactly the first 10 of the new
  event followed by the elements it had before the last call, so the event added last is
  at index 0, the list has \<open>min 10 (n + 1)\<close> elements when it had \<open>n\<close>, nothing is
  removed while it has fewer than 10, and past capacity it is the oldest entries, at the
  end, that are evicted. Over all child nodes the list is a prefix of the new event
  followed by the previous list. For the empty sequence the list is the markup, of at most
  10 elements when the markup has at most 10.
\<close>

theorem detected_events_bounded_newest_first:
  fixes calls markup label confidence now
  defines "previous \<equiv> addDetectedEvents calls markup"
  defines "final \<equiv> addDetectedEvents (calls @ [(label, confidence, now)]) markup"
  defines "newest \<equiv> EventElement
     \<lparr>event_time = now, event_type = label, event_confidence = confidence\<rparr>"
  shows "children final = take 10 (newest # children previous) \<and>
         length (children final) = min 10 (length (children previous) + 1) \<and>
         length (children final) \<le> 10 \<and> final ! 0 = newest \<and> children final ! 0 = newest \<and>
         (\<exists>k. final = take k (newest # previous)) \<and>
         (length (children previous) < 10 \<longrightarrow> final = newest # previous) \<and>
         (length (children markup) \<le> 10 \<longrightarrow> length (children previous) \<le> 10)"
proof -
  have step: "final = addDetectedEvent label confidence now previous"
    unfolding final_def previous_def by (rule addDetectedEvents_snoc)
  have elements: "children final = take 10 (newest # children previous)"
    unfolding step newest_def by (rule addDetectedEvent_children)
  then have count: "length (children final) = min 10 (length (children previous) + 1)"
    by simp
  obtain rest where "final = newest # rest"
    unfolding step newest_def using addDetectedEvent_head by blast
  then have first: "final ! 0 = newest" by simp
  have first': "children final ! 0 = newest" by (simp add: elements)
  have prefix: "\<exists>k. final = take k (newest # previous)"
    unfolding step newest_def using addDetectedEvent_prefix by blast
  have below: "length (children previous) < 10 \<longrightarrow> final = newest # previous"
    unfolding step newest_def using addDetectedEvent_below by blast
  have start: "length (children markup) \<le> 10 \<longrightarrow> length (children previous) \<le> 10"
    unfolding previous_def using addDetectedEvents_length by blast
  from elements count first first' prefix below start show ?thesis by simp
qed

text \<open>Eleven events on a list that starts with a text node: the eleventh evicts the
  first, and then the text node behind it is gone too.\<close>

theorem detected_events_bounded_newest_first_witness:
  "length (children [TextNode]) \<le> 10 \<and>
   length (children (addDetectedEvents
     (map (\<lambda>t. (''cough'', 19 / 20, t)) [1, 2, 3, 4, 5, 6, 7, 8, 9, 10]) [TextNode])) = 10 \<and>
   children (addDetectedEvents
     (map (\<lambda>t. (''cough'', 19 / 20, t)) [1, 2, 3, 4, 5, 6, 7, 8, 9, 10] @ [(''snore'', 23 / 25, 11)])
     [TextNode]) =
     take 10 (EventElement \<lparr>event_time = 11, event_type = ''snore'', event_confidence = 23 / 25\<rparr> #
       children (addDetectedEvents
         (map (\<lambda>t. (''cough'', 19 / 20, t)) [1, 2, 3, 4, 5, 6, 7, 8, 9, 10]) [TextNode])) \<and>
   length (children (addDetectedEvents
     (map (\<lambda>t. (''cough'', 19 / 20, t)) [1, 2, 3, 4, 5, 6, 7, 8, 9, 10] @ [(''snore'', 23 / 25, 11)])
     [TextNode])) = 10 \<and>
   addDetectedEvents [(''cough'', 19 / 20, 1), (''snore'', 23 / 25, 2)] [TextNode] =
     [EventElement \<lparr>event_time = 2, event_type = ''snore'', event_confidence = 23 / 25\<rparr>,
      EventElement \<lparr>event_time = 1, event_type = ''cough'', event_confidence = 19 / 20\<rparr>, TextNode]"
proof -
  let ?ten = "map (\<lambda>t. (''cough'', 19 / 20 :: rat, t :: int)) [1, 2, 3, 4, 5, 6, 7, 8, 9, 10]"
  have markup: "length (children [TextNode]) \<le> 10" by (simp add: children_def)
  have one: "addDetectedEvents [(''cough'', 19 / 20, 1)] [TextNode] =
      [EventElement \<lparr>event_time = 1, event_type = ''cough'', event_confidence = 19 / 20\<rparr>, TextNode]"
    by (simp add: addDetectedEvents_def addDetectedEvent_below children_def)
  have ten: "length (children (addDetectedEvents ?ten [TextNode])) = 10"
    by (simp add: addDetectedEvents_def addDetectedEvent_below children_def)
  note full = detected_events_bounded_newest_first
    [where markup = "[TextNode]" and calls = ?ten and label = "''snore''"
       and confidence = "23 / 25" and now = 11]
  note small = detected_events_bounded_newest_first
    [where markup = "[TextNode]" and calls = "[(''cough'', 19 / 20, 1)]" and label = "''snore''"
       and confidence = "23 / 25" and now = 2]
  have two: "addDetectedEvents [(''cough'', 19 / 20, 1), (''snore'', 23 / 25, 2)] [TextNode] =
     [EventElement \<lparr>event_time = 2, event_type = ''snore'', event_confidence = 23 / 25\<rparr>,
      EventElement \<lparr>event_time = 1, event_type = ''cough'', event_confidence = 19 / 20\<rparr>, TextNode]"
    using small one by (simp add: children_def)
  from full ten have
    "children (addDetectedEvents (?ten @ [(''snore'', 23 / 25, 11)]) [TextNode]) =
       take 10 (EventElement \<lparr>event_time = 11, event_type = ''snore'', event_confidence = 23 / 25\<rparr> #
         children (addDetectedEvents ?ten [TextNode]))"
    and "length (children (addDetectedEvents (?ten @ [(''snore'', 23 / 25, 11)]) [TextNode])) = 10"
    by simp_all
  with markup ten two show ?thesis by blast
qed

section \<open>Properties of the detection pipeline\<close>

lemma handleDetection_alerts:
  "alerts (handleDetection type score now m) =
     (if alerting type score now m then alerts m @ [(type, confidencePercent score, now)] else alerts m)"
  by (auto simp: handleDetection_def alerting_def Let_def)

lemma handleDetection_active:
  "detectionActive (handleDetection type score now m) =
     (if alerting type score now m then (detectionActive m)(type := True) else detectionActive m)"
  by (auto simp: handleDetection_def alerting_def Let_def)

lemma handleDetection_start:
  "detectionStartTime (handleDetection type score now m) =
     (if alerting type score now m then (detectionStartTime m)(type := Some now) else detectionStartTime m)"
  by (auto simp: handleDetection_def alerting_def Let_def)

lemma handleDetection_handle:
  "detectionTimeouts (handleDetection type score now m) = (detectionTimeouts m)(type := Some (nextTimer m))"
  by (simp add: handleDetection_def Let_def)

lemma handleDetection_timers:
  "timers (handleDetection type score now m) =
     (case detectionTimeouts m type of Some handle \<Rightarrow> clearTimeout handle (timers m) | None \<Rightarrow> timers m)
       @ [(nextTimer m, type, now + 2000)]"
  by (auto simp: handleDetection_def Let_def split: option.splits)


lemma handleDetection_events:
  "detectedEventList (handleDetection type score now m) =
     (if alerting type score now m
      then addDetectedEvent (label_name type) score now (detectedEventList m)
      else detectedEventList m)"
  by (auto simp: handleDetection_def alerting_def Let_def)

lemma alert_times_handleDetection:
  "alert_times l (handleDetection type score now m) =
     (if alerting type score now m \<and> l = type then insert now (alert_times l m) else alert_times l m)"
  by (auto simp: alert_times_def handleDetection_alerts)

lemma alert_times_detectionTimeout [simp]:
  "alert_times l (detectionTimeout handle type m) = alert_times l m"
  by (simp add: alert_times_def detectionTimeout_def)

lemma alert_times_initial [simp]: "alert_times l (initial_monitor markup) = {}"
  by (simp add: alert_times_def initial_monitor_def)

lemma debounce_inv_initial: "debounce_inv t (initial_monitor markup)"
  by (simp add: debounce_inv_def clock_inv_def active_inv_def idle_inv_def timer_inv_def)
     (simp add: initial_monitor_def)

lemma debounce_inv_mono: "debounce_inv t m \<Longrightarrow> t \<le> t' \<Longrightarrow> debounce_inv t' m"
  unfolding debounce_inv_def clock_inv_def idle_inv_def by force

lemma clock_inv_handleDetection:
  "clock_inv now m \<Longrightarrow> clock_inv now (handleDetection type score now m)"
  by (simp add: clock_inv_def alert_times_handleDetection)

lemma active_inv_handleDetection:
  "clock_inv now m \<Longrightarrow> active_inv m \<Longrightarrow> active_inv (handleDetection type score now m)"
  unfolding active_inv_def clock_inv_def
  by (simp add: alert_times_handleDetection handleDetection_active handleDetection_start)

lemma idle_inv_handleDetection:
  "idle_inv now m \<Longrightarrow> idle_inv now (handleDetection type score now m)"
  unfolding idle_inv_def
  by (simp add: alert_times_handleDetection handleDetection_active)

lemma timer_inv_handleDetection:
  assumes "clock_inv now m" "timer_inv m"
  shows "timer_inv (handleDetection type score now m)"
proof -
  have new: "\<forall>ta \<in> alert_times type (handleDetection type score now m). ta + 2000 \<le> now + 2000"
    using assms(1) by (auto simp: clock_inv_def alert_times_handleDetection)
  have old: "detectionTimeouts m l = Some h \<and> l \<noteq> type \<and> (\<forall>ta \<in> alert_times l m. ta + 2000 \<le> due)"
    if "(h, l, due) \<in> set (case detectionTimeouts m type of
           Some handle \<Rightarrow> clearTimeout handle (timers m) | None \<Rightarrow> timers m)" for h l due
    using that assms(2) unfolding timer_inv_def clearTimeout_def
    by (cases "detectionTimeouts m type") auto
  show ?thesis
    unfolding timer_inv_def handleDetection_timers handleDetection_handle
    using new old by (auto simp: alert_times_handleDetection)
qed

lemma debounce_inv_handleDetection:
  "debounce_inv now m \<Longrightarrow> debounce_inv now (handleDetection type score now m)"
  unfolding debounce_inv_def
  by (simp add: clock_inv_handleDetection active_inv_handleDetection idle_inv_handleDetection
        timer_inv_handleDetection)

lemma debounce_inv_checkLabel:
  "debounce_inv now m \<Longrightarrow> debounce_inv now (checkLabel type score now m)"
  by (simp add: checkLabel_def debounce_inv_handleDetection split: option.splits)

lemma debounce_inv_detectionTimeout:
  assumes "debounce_inv now m" "(handle, type, due) \<in> set (timers m)" "due \<le> now"
  shows "debounce_inv now (detectionTimeout handle type m)"
proof -
  from assms have due: "\<forall>ta \<in> alert_times type m. ta + 2000 \<le> now"
    unfolding debounce_inv_def timer_inv_def by fastforce
  have "clock_inv now (detectionTimeout handle type m)"
    using assms(1) by (simp add: debounce_inv_def clock_inv_def)
  moreover have "active_inv (detectionTimeout handle type m)"
    using assms(1) unfolding debounce_inv_def active_inv_def
    by (simp add: detectionTimeout_def alert_times_def)
  moreover have "idle_inv now (detectionTimeout handle type m)"
    using assms(1) due unfolding debounce_inv_def idle_inv_def
    by (simp add: detectionTimeout_def alert_times_def)
  moreover have "timer_inv (detectionTimeout handle type m)"
    using assms(1) unfolding debounce_inv_def timer_inv_def
    by (auto simp: detectionTimeout_def alert_times_def clearTimeout_def)
  ultimately show ?thesis by (simp add: debounce_inv_def)
qed

lemma reachable_debounce_inv: "reachable t m \<Longrightarrow> debounce_inv t m"
proof (induction rule: reachable.induct)
  case (loaded t markup)
  show ?case by (rule debounce_inv_initial)
next
  case (classified t m now type score)
  then show ?case by (blast intro: debounce_inv_checkLabel debounce_inv_mono)
next
  case (timed_out t m now handle type due)
  then show ?case by (blast intro: debounce_inv_detectionTimeout debounce_inv_mono)
qed

text \<open>A whole callback is two such steps, so it stays within the reachable states.\<close>

lemma reachable_listenCallback:
  assumes "reachable t m" and "t \<le> tCough" and "tCough \<le> tSnore"
  shows "reachable tSnore (listenCallback scoresByLabel tCough tSnore m)"
  unfolding listenCallback_def
  by (rule reachable.classified [OF reachable.classified [OF assms(1,2)] assms(3)])

lemma alerted_within_1000_iff:
  "alerted_within_1000 type now m \<longleftrightarrow> (\<exists>t \<in> alert_times type m. now - t \<le> 1000)"
  by (auto simp: alerted_within_1000_def alert_times_def list_ex_iff)

lemma alerting_iff:
  assumes "debounce_inv now m"
  shows "alerting type score now m \<longleftrightarrow> score \<ge> ALERT_THRESHOLD \<and> \<not> alerted_within_1000 type now m"
proof (cases "detectionActive m type")
  case True
  with assms obtain start where s: "detectionStartTime m type = Some start"
    "start \<in> alert_times type m" "\<forall>ta \<in> alert_times type m. ta \<le> start"
    unfolding debounce_inv_def active_inv_def by blast
  have "alerted_within_1000 type now m \<longleftrightarrow> now - start \<le> 1000"
    unfolding alerted_within_1000_iff using s(2,3) by force
  then show ?thesis using True s(1) by (auto simp: alerting_def)
next
  case False
  with assms have "\<forall>ta \<in> alert_times type m. ta + 2000 \<le> now"
    unfolding debounce_inv_def idle_inv_def by blast
  then have "\<not> alerted_within_1000 type now m"
    unfolding alerted_within_1000_iff by force
  then show ?thesis using False by (simp add: alerting_def)
qed

lemma thresholds: "DETECTION_THRESHOLD \<le> ALERT_THRESHOLD"
  by (simp add: DETECTION_THRESHOLD_def ALERT_THRESHOLD_def)



text \<open>
  Claim C2 says that an event is logged whenever a tracked label's score reaches the
  detection threshold. In the extended variant a cough score of 0.80 runs the pipeline and
  logs nothing: \<open>addDetectedEvent\<close> is called only where the alert is raised.
\<close>

theorem events_logged_at_detection_threshold_counterexample:
  "DETECTION_THRESHOLD \<le> 4 / 5 \<and>
   detectedEventList (checkLabel Cough (Some (4 / 5)) 0 (initial_monitor [])) = [] \<and>
   addDetectedEvent ''cough'' (4 / 5) 0 [] \<noteq> []"
  by (simp add: DETECTION_THRESHOLD_def ALERT_THRESHOLD_def checkLabel_def handleDetection_def
        initial_monitor_def Let_def addDetectedEvent_def keep_last_10.simps children_def)

lemma simpleListenCallback_eq:
  "simpleListenCallback wordLabels scores now childNodes =
     (if scores \<noteq> [] \<and> Max (set scores) \<ge> DETECTION_THRESHOLD
      then addDetectedEvent
             (if nat (indexOf scores (Max (set scores))) < length wordLabels \<and> 0 \<le> indexOf scores (Max (set scores))
              then wordLabels ! nat (indexOf scores (Max (set scores))) else ''undefined'')
             (Max (set scores)) now childNodes
      else childNodes)"
proof (cases scores)
  case Nil
  then show ?thesis by (simp add: simpleListenCallback_def)
next
  case (Cons s rest)
  have "fold max rest s = Max (set scores)"
    using Max.set_eq_fold [of s rest] Cons by simp
  then show ?thesis
    using Cons by (simp add: simpleListenCallback_def Let_def del: indexOf.simps)
qed

text \<open>
  Claim C2, amended. In the extended variant an event is added to the list exactly when
  the alert is raised: the score is at least 0.90 and no alert for the label was raised
  within the 1000 milliseconds before; otherwise the list is left as it was. In the simple
  variant, which has no tracked labels, an event is added exactly when the highest score of
  the callback is at least 0.78.
\<close>

theorem events_logged_when_alert_fires:
  assumes "reachable t m" and "t \<le> now"
  shows "detectedEventList (checkLabel type (Some s) now m) =
           (if s \<ge> ALERT_THRESHOLD \<and> \<not> alerted_within_1000 type now m
            then addDetectedEvent (label_name type) s now (detectedEventList m)
            else detectedEventList m) \<and>
         (scores = [] \<or> Max (set scores) < DETECTION_THRESHOLD \<longrightarrow>
            simpleListenCallback wordLabels scores now childNodes = childNodes) \<and>
         (scores \<noteq> [] \<and> Max (set scores) \<ge> DETECTION_THRESHOLD \<longrightarrow>
            (\<exists>label. simpleListenCallback wordLabels scores now childNodes =
               addDetectedEvent label (Max (set scores)) now childNodes))"
proof -
  have inv: "debounce_inv now m"
    using assms by (blast intro: reachable_debounce_inv debounce_inv_mono)
  have a: "alerting type s now m \<Longrightarrow> s \<ge> DETECTION_THRESHOLD"
    using thresholds by (simp add: alerting_def)
  have "detectedEventList (checkLabel type (Some s) now m) =
          (if alerting type s now m
           then addDetectedEvent (label_name type) s now (detectedEventList m)
           else detectedEventList m)"
    using a by (simp add: checkLabel_def handleDetection_events)
  then have first: "detectedEventList (checkLabel type (Some s) now m) =
           (if s \<ge> ALERT_THRESHOLD \<and> \<not> alerted_within_1000 type now m
            then addDetectedEvent (label_name type) s now (detectedEventList m)
            else detectedEventList m)"
    using alerting_iff [OF inv, of type s] by simp
  have second: "scores = [] \<or> Max (set scores) < DETECTION_THRESHOLD \<longrightarrow>
            simpleListenCallback wordLabels scores now childNodes = childNodes"
    by (auto simp: simpleListenCallback_eq)
  have third: "scores \<noteq> [] \<and> Max (set scores) \<ge> DETECTION_THRESHOLD \<longrightarrow>
            (\<exists>label. simpleListenCallback wordLabels scores now childNodes =
               addDetectedEvent label (Max (set scores)) now childNodes)"
    by (subst simpleListenCallback_eq) auto
  from first second third show ?thesis by blast
qed

theorem events_logged_when_alert_fires_witness:
  "reachable 0 (initial_monitor []) \<and> (0::int) \<le> 3 \<and>
   detectedEventList (checkLabel Snore (Some (93 / 100)) 3 (initial_monitor [])) =
     addDetectedEvent ''snore'' (93 / 100) 3 [] \<and>
   simpleListenCallback [''cough''] [1 / 2] 3 [] = [] \<and>
   (\<exists>label. simpleListenCallback [''cough''] [4 / 5] 3 [] = addDetectedEvent label (4 / 5) 3 [])"
proof -
  have r: "reachable 0 (initial_monitor [])" by (rule reachable.loaded)
  have le: "(0::int) \<le> 3" by simp
  have a: "ALERT_THRESHOLD \<le> 93 / 100" "\<not> alerted_within_1000 Snore 3 (initial_monitor [])"
    by (simp_all add: ALERT_THRESHOLD_def alerted_within_1000_def initial_monitor_def)
  have d: "detectedEventList (initial_monitor []) = []" by (simp add: initial_monitor_def)
  have lo: "Max (set [1 / 2 :: rat]) < DETECTION_THRESHOLD" "[1 / 2 :: rat] \<noteq> []"
    and hi: "[4 / 5 :: rat] \<noteq> []" "DETECTION_THRESHOLD \<le> Max (set [4 / 5 :: rat])"
    by (simp_all add: DETECTION_THRESHOLD_def)
  from events_logged_when_alert_fires [OF r le, of Snore "93 / 100" "[1 / 2]" "[''cough'']" "[]"]
  have 1: "detectedEventList (checkLabel Snore (Some (93 / 100)) 3 (initial_monitor [])) =
     addDetectedEvent ''snore'' (93 / 100) 3 []" and 2: "simpleListenCallback [''cough''] [1 / 2] 3 [] = []"
    using a d lo by simp_all
  from events_logged_when_alert_fires [OF r le, of Snore "93 / 100" "[4 / 5]" "[''cough'']" "[]"]
  have 3: "\<exists>label. simpleListenCallback [''cough''] [4 / 5] 3 [] = addDetectedEvent label (4 / 5) 3 []"
    using hi by simp
  from r le 1 2 3 show ?thesis by simp
qed

section \<open>Properties of the media streams\<close>

text \<open>In every state of the live feed the stream held in \<open>window.videoStream\<close> is an
  active one, and the active streams are distinct streams acquired before.\<close>

lemma video_reachable_inv:
  "video_reachable v \<Longrightarrow>
     (\<forall>s. videoStream v = Some s \<longrightarrow> s \<in> set (cameraStreams v)) \<and>
     (\<forall>s \<in> set (cameraStreams v). s < acquiredCameras v) \<and>
     distinct (cameraStreams v)"
proof (induction rule: video_reachable.induct)
  case created
  show ?case by (simp add: initial_video_page_def)
next
  case (toggled v)
  then show ?case
    by (auto simp: toggleVideoFeed_begin_def stopVideoFeed_def Let_def distinct_removeAll
             split: option.splits)
next
  case (settled v refused)
  then show ?case
    by (cases refused) (auto simp: toggleVideoFeed_resume_def)
next
  case (stopped v)
  then show ?case
    by (auto simp: stopIfStreaming_def stopVideoFeed_def Let_def distinct_removeAll
             split: option.splits)
qed

text \<open>
  Claim C4 (at most one active stream of a kind in each component), evaluated on the
  code. Audio monitor: page load with the microphone granted, then a click on the start
  button with the microphone granted. The start branch asks for the microphone again and
  overwrites \<open>microphone\<close> and \<open>audioContext\<close>; the stream acquired at page load is not
  stopped, so two microphone streams are active, with no alert and no recording under
  way. Live feed: two clicks on the start button before the first camera request
  settles, both granted. Each suspended call acquires a camera stream and the second
  overwrites \<open>window.videoStream\<close>: two camera streams are active, and \<open>stopVideoFeed\<close>
  afterwards stops only the one that is held.
\<close>

theorem two_streams_of_one_kind_active:
  "activeStreams (toggleAudioMonitoring Started
       (setupAudioProcessing_settled True (initAudioMonitoring True initial_audio_page))) = [0, 1] \<and>
   recorders (toggleAudioMonitoring Started
       (setupAudioProcessing_settled True (initAudioMonitoring True initial_audio_page))) = [] \<and>
   cameraStreams (toggleVideoFeed_resume None (toggleVideoFeed_resume None
       (toggleVideoFeed_begin (toggleVideoFeed_begin initial_video_page)))) = [0, 1] \<and>
   videoStream (toggleVideoFeed_resume None (toggleVideoFeed_resume None
       (toggleVideoFeed_begin (toggleVideoFeed_begin initial_video_page)))) = Some 1 \<and>
   cameraStreams (stopVideoFeed (toggleVideoFeed_resume None (toggleVideoFeed_resume None
       (toggleVideoFeed_begin (toggleVideoFeed_begin initial_video_page))))) = [0] \<and>
   videoStream (stopVideoFeed (toggleVideoFeed_resume None (toggleVideoFeed_resume None
       (toggleVideoFeed_begin (toggleVideoFeed_begin initial_video_page))))) = None"
  by (simp add: toggleAudioMonitoring_def initAudioMonitoring_def setupAudioProcessing_settled_def
        initial_audio_page_def newAudioContext_def acquireStream_def Let_def
        initial_video_page_def toggleVideoFeed_begin_def toggleVideoFeed_resume_def
        stopVideoFeed_def)

text \<open>The double start is within the states of the live feed.\<close>

lemma video_double_start_reachable:
  "video_reachable (toggleVideoFeed_resume None (toggleVideoFeed_resume None
     (toggleVideoFeed_begin (toggleVideoFeed_begin initial_video_page))))"
proof -
  let ?two = "toggleVideoFeed_begin (toggleVideoFeed_begin initial_video_page)"
  have two: "video_reachable ?two"
    by (intro video_reachable.toggled video_reachable.created)
  have p2: "pendingCamera ?two > 0"
    by (simp add: initial_video_page_def toggleVideoFeed_begin_def)
  have one: "video_reachable (toggleVideoFeed_resume None ?two)"
    by (rule video_reachable.settled [OF two p2])
  have p1: "pendingCamera (toggleVideoFeed_resume None ?two) > 0"
    by (simp add: initial_video_page_def toggleVideoFeed_begin_def toggleVideoFeed_resume_def)
  show ?thesis by (rule video_reachable.settled [OF one p1])
qed

text \<open>Besides, every alert makes \<open>saveDetectionRecording\<close> acquire a microphone stream of
  its own while the monitor listens; that one is released by the recording's timer.\<close>

lemma recording_opens_second_stream:
  "isListening (toggleAudioMonitoring Started (initAudioMonitoring True initial_audio_page)) \<and>
   activeStreams (saveDetectionRecording True
     (toggleAudioMonitoring Started (initAudioMonitoring True initial_audio_page))) = [0, 1] \<and>
   recorders (saveDetectionRecording True
     (toggleAudioMonitoring Started (initAudioMonitoring True initial_audio_page))) = [1]"
  by (simp add: saveDetectionRecording_def toggleAudioMonitoring_def initAudioMonitoring_def
        initial_audio_page_def newAudioContext_def acquireStream_def Let_def)

lemma recording_stream_released:
  assumes "acquiredStreams a \<notin> set (activeStreams a)"
  shows "activeStreams (recordingTimeout (acquiredStreams a) (saveDetectionRecording True a)) =
           activeStreams a"
  using assms
  by (simp add: recordingTimeout_def saveDetectionRecording_def acquireStream_def)

text \<open>
  Claim C5 (stopping leaves no active track and a closed context), evaluated on the audio
  monitor: page load with the microphone granted, a click on the start button with the
  microphone granted, a click on the stop button. The monitor is stopped and the context
  of the session is closed, but the stop branch stops no track: the stream the session
  acquired is still active, and so is the stream acquired at page load, whose context
  stays open as well.
\<close>

theorem audio_stop_leaves_stream_active:
  "isListening (toggleAudioMonitoring Started
       (setupAudioProcessing_settled True (initAudioMonitoring True initial_audio_page))) \<and>
   \<not> isListening (toggleAudioMonitoring Started (toggleAudioMonitoring Started
       (setupAudioProcessing_settled True (initAudioMonitoring True initial_audio_page)))) \<and>
   activeStreams (toggleAudioMonitoring Started (toggleAudioMonitoring Started
       (setupAudioProcessing_settled True (initAudioMonitoring True initial_audio_page)))) = [0, 1] \<and>
   audioContext (toggleAudioMonitoring Started (toggleAudioMonitoring Started
       (setupAudioProcessing_settled True (initAudioMonitoring True initial_audio_page)))) = Some 1 \<and>
   openContexts (toggleAudioMonitoring Started (toggleAudioMonitoring Started
       (setupAudioProcessing_settled True (initAudioMonitoring True initial_audio_page)))) = [0] \<and>
   activeStreams (toggleAudioMonitoring Started (toggleAudioMonitoring Started
       (initAudioMonitoring True initial_audio_page))) = [0]"
  by (simp add: toggleAudioMonitoring_def initAudioMonitoring_def setupAudioProcessing_settled_def
        initial_audio_page_def newAudioContext_def acquireStream_def Let_def)

text \<open>The sibling path: \<open>stopVideoFeed\<close> does stop the tracks of the stream it holds, and
  clears the handle and the element.\<close>

lemma video_stop_releases_held_stream:
  assumes "video_reachable v" and "videoStream v = Some s"
  shows "s \<in> set (cameraStreams v) \<and>
         set (cameraStreams (stopVideoFeed v)) = set (cameraStreams v) - {s} \<and>
         videoStream (stopVideoFeed v) = None \<and> srcObject (stopVideoFeed v) = None"
  using video_reachable_inv [OF assms(1)] assms(2)
  by (auto simp: stopVideoFeed_def Let_def)

section \<open>Properties of the registration form\<close>

lemma validate_divs_error [simp]:
  "validate_divs divs (Some e, pushed) = (Some e, pushed)"
  by (induction divs) auto

lemma validate_divs_first:
  "validate_divs divs (None, pushed) =
     (case find (\<lambda>d. validate_div d \<noteq> None) divs of
        None \<Rightarrow> (None, pushed @ map recipient_of divs)
      | Some d \<Rightarrow> (validate_div d,
                   pushed @ map recipient_of (takeWhile (\<lambda>d. validate_div d = None) divs)))"
  by (induction divs arbitrary: pushed) (auto split: option.splits)

lemma validate_div_ok:
  "validate_div d = None \<longleftrightarrow>
     recipient_gender d \<noteq> [] \<and> recipient_name d \<noteq> [] \<and> recipient_email d \<noteq> [] \<and>
     length (recipient_phone d) = 10 \<and> (\<exists>n. parseInt (recipient_age d) = Some n \<and> n \<noteq> 0)"
  by (auto simp: validate_div_def recipient_of_def phone_rejected_def age_rejected_def Let_def
           split: option.splits)

lemma phone_rejected_iff: "\<not> phone_rejected phone \<longleftrightarrow> length phone = 10"
  by (auto simp: phone_rejected_def)

lemma validate_div_phone:
  "length (recipient_phone d) \<noteq> 10 \<Longrightarrow> validate_div d \<noteq> None"
  by (simp add: validate_div_ok)

lemma validate_div_message: "validate_div d = Some message \<Longrightarrow> message \<noteq> []"
  by (auto simp: validate_div_def Let_def split: if_splits)

lemma validate_form_blocked:
  assumes "d \<in> set divs" "length (recipient_phone d) \<noteq> 10"
  shows "\<exists>message. validate_form formData divs = Inl message \<and> message \<noteq> []"
proof (cases "full_name formData = [] \<or> email formData = [] \<or> username formData = [] \<or>
         phone_number formData = [] \<or> password formData = []")
  case True
  then show ?thesis by (simp add: validate_form_def)
next
  case False
  from assms have "\<exists>x \<in> set divs. validate_div x \<noteq> None"
    using validate_div_phone by blast
  then obtain x where x: "find (\<lambda>d. validate_div d \<noteq> None) divs = Some x"
    by (cases "find (\<lambda>d. validate_div d \<noteq> None) divs") (auto simp: find_None_iff)
  then have "validate_div x \<noteq> None" by (auto simp: find_Some_iff)
  then obtain message where m: "validate_div x = Some message" by blast
  then have "message \<noteq> []" by (rule validate_div_message)
  then show ?thesis
    using False x m by (simp add: validate_form_def validate_divs_first)
qed

lemma submit_handler_blocked:
  "validate_form formData divs = Inl message \<Longrightarrow> message \<noteq> [] \<Longrightarrow>
   submit_handler formData divs answer divsAfter answers token =
     \<lparr>shown = [''Registering... Please wait.'', message], sent = [], stored_token = token,
      redirected = False\<rparr>"
  by (simp add: submit_handler_def error_alert_def)

lemma validate_form_phone_first:
  assumes caretaker: "full_name formData \<noteq> []" "email formData \<noteq> []" "username formData \<noteq> []"
      "phone_number formData \<noteq> []" "password formData \<noteq> []"
    and before: "\<forall>b \<in> set before. validate_div b = None"
    and d: "recipient_gender d \<noteq> []" "recipient_name d \<noteq> []" "recipient_email d \<noteq> []"
      "length (recipient_phone d) \<noteq> 10"
  shows "validate_form formData (before @ d # after) =
           Inl ''Valid 10-digit phone number is required for all care recipients''"
proof -
  have msg: "validate_div d = Some ''Valid 10-digit phone number is required for all care recipients''"
    using d by (auto simp: validate_div_def recipient_of_def phone_rejected_def Let_def)
  have "find (\<lambda>d. validate_div d \<noteq> None) (before @ d # after) = Some d"
    using before msg by (induction before) auto
  then show ?thesis
    using caretaker msg by (simp add: validate_form_def validate_divs_first)
qed

lemmas parseInt_eval = parseInt_def isWhiteSpace_def isRadixDigit_def digitValue_def digitsValue_def

lemmas validate_eval = validate_div_def recipient_of_def phone_rejected_def age_rejected_def Let_def

text \<open>
  Claim C6 says that phone validation accepts exactly the 10-digit strings. The check is
  on the length alone: a block whose phone is ten letters passes validation, and the form
  is sent.
\<close>

theorem phone_validation_counterexample:
  "\<not> isRadixDigit 10 (CHR ''a'') \<and>
   \<not> phone_rejected ''abcdefghij'' \<and>
   validate_div (sample_recipient\<lparr>recipient_phone := ''abcdefghij''\<rparr>) = None \<and>
   sent (submit_handler sample_caretaker [sample_recipient\<lparr>recipient_phone := ''abcdefghij''\<rparr>]
          (SignupRejected ''offline'') [] (\<lambda>i. UploadAccepted) None) =
     [Signup (sample_caretaker\<lparr>care_recipients :=
        [recipient_of (sample_recipient\<lparr>recipient_phone := ''abcdefghij''\<rparr>)]\<rparr>)]"
  by (simp add: submit_handler_def validate_form_def sample_caretaker_def sample_recipient_def
        validate_eval parseInt_eval error_alert_def)

text \<open>
  Claim C6, amended. A submission with a recipient block whose phone string has a length
  other than 10 is always blocked before any request is sent: one error dialog follows the
  opening one and the page stays. The dialog is the phone message when nothing checked
  earlier fails: the caretaker fields are filled, the blocks before pass, and the block has
  a gender, a name and an email. The phone check itself accepts exactly the strings of
  length 10, whatever their characters.
\<close>

theorem phone_length_blocks_submission:
  "(d \<in> set divs \<and> length (recipient_phone d) \<noteq> 10 \<longrightarrow>
      sent (submit_handler formData divs answer divsAfter answers token) = [] \<and>
      \<not> redirected (submit_handler formData divs answer divsAfter answers token) \<and>
      length (shown (submit_handler formData divs answer divsAfter answers token)) = 2) \<and>
   (full_name formData \<noteq> [] \<and> email formData \<noteq> [] \<and> username formData \<noteq> [] \<and>
    phone_number formData \<noteq> [] \<and> password formData \<noteq> [] \<and>
    (\<forall>b \<in> set before. validate_div b = None) \<and>
    recipient_gender d' \<noteq> [] \<and> recipient_name d' \<noteq> [] \<and> recipient_email d' \<noteq> [] \<and>
    length (recipient_phone d') \<noteq> 10 \<longrightarrow>
      submit_handler formData (before @ d' # after) answer divsAfter answers token =
        \<lparr>shown = [''Registering... Please wait.'',
                  ''Valid 10-digit phone number is required for all care recipients''],
         sent = [], stored_token = token, redirected = False\<rparr>) \<and>
   (\<not> phone_rejected phone \<longleftrightarrow> length phone = 10)"
proof (intro conjI impI)
  assume "d \<in> set divs \<and> length (recipient_phone d) \<noteq> 10"
  then obtain message where "validate_form formData divs = Inl message" "message \<noteq> []"
    using validate_form_blocked by blast
  then have s: "submit_handler formData divs answer divsAfter answers token =
     \<lparr>shown = [''Registering... Please wait.'', message], sent = [], stored_token = token,
      redirected = False\<rparr>"
    by (rule submit_handler_blocked)
  show "sent (submit_handler formData divs answer divsAfter answers token) = []"
    and "\<not> redirected (submit_handler formData divs answer divsAfter answers token)"
    and "length (shown (submit_handler formData divs answer divsAfter answers token)) = 2"
    by (simp_all add: s)
next
  assume a: "full_name formData \<noteq> [] \<and> email formData \<noteq> [] \<and> username formData \<noteq> [] \<and>
    phone_number formData \<noteq> [] \<and> password formData \<noteq> [] \<and>
    (\<forall>b \<in> set before. validate_div b = None) \<and>
    recipient_gender d' \<noteq> [] \<and> recipient_name d' \<noteq> [] \<and> recipient_email d' \<noteq> [] \<and>
    length (recipient_phone d') \<noteq> 10"
  then have "validate_form formData (before @ d' # after) =
           Inl ''Valid 10-digit phone number is required for all care recipients''"
    by (intro validate_form_phone_first) simp_all
  then show "submit_handler formData (before @ d' # after) answer divsAfter answers token =
        \<lparr>shown = [''Registering... Please wait.'',
                  ''Valid 10-digit phone number is required for all care recipients''],
         sent = [], stored_token = token, redirected = False\<rparr>"
    by (rule submit_handler_blocked) simp
next
  show "\<not> phone_rejected phone \<longleftrightarrow> length phone = 10" by (rule phone_rejected_iff)
qed

theorem phone_length_blocks_submission_witness:
  "sent (submit_handler sample_caretaker [sample_recipient, sample_recipient\<lparr>recipient_phone := ''12345''\<rparr>]
          (SignupRejected ''offline'') [] (\<lambda>i. UploadAccepted) None) = [] \<and>
   submit_handler sample_caretaker [sample_recipient, sample_recipient\<lparr>recipient_phone := ''12345''\<rparr>]
          (SignupRejected ''offline'') [] (\<lambda>i. UploadAccepted) None =
     \<lparr>shown = [''Registering... Please wait.'',
               ''Valid 10-digit phone number is required for all care recipients''],
      sent = [], stored_token = None, redirected = False\<rparr> \<and>
   \<not> phone_rejected ''0123456789''"
proof -
  let ?bad = "sample_recipient\<lparr>recipient_phone := ''12345''\<rparr>"
  have ok: "validate_div sample_recipient = None"
    by (simp add: sample_recipient_def validate_eval parseInt_eval)
  have bad: "recipient_gender ?bad \<noteq> []" "recipient_name ?bad \<noteq> []" "recipient_email ?bad \<noteq> []"
    "length (recipient_phone ?bad) \<noteq> 10"
    by (simp_all add: sample_recipient_def)
  have caretaker: "full_name sample_caretaker \<noteq> []" "email sample_caretaker \<noteq> []"
    "username sample_caretaker \<noteq> []" "phone_number sample_caretaker \<noteq> []"
    "password sample_caretaker \<noteq> []"
    by (simp_all add: sample_caretaker_def)
  from phone_length_blocks_submission [of ?bad "[sample_recipient, ?bad]" sample_caretaker
      "SignupRejected ''offline''" "[]" "\<lambda>i. UploadAccepted" None "[sample_recipient]" ?bad "[]"
      "''0123456789''"]
  show ?thesis using ok bad caretaker by simp
qed

text \<open>
  Claim C7 says that a block passes only with a positive age. The check refuses zero and
  what \<open>parseInt\<close> cannot read, nothing else: a block with the age \<open>-5\<close> passes.
\<close>

theorem recipient_validation_counterexample:
  "parseInt ''-5'' = Some (- 5) \<and>
   validate_div (sample_recipient\<lparr>recipient_age := ''-5''\<rparr>) = None"
  by (simp add: sample_recipient_def validate_eval parseInt_eval)

text \<open>
  Claim C7, amended. A recipient block passes validation if and only if a gender is
  selected, its name and email are non-empty, its phone string has length 10, and its age
  is read by \<open>parseInt\<close> as an integer other than zero. Only the first error is reported:
  the blocks are checked in page order and the first block that fails gives the error, the
  blocks after it being skipped; inside a block the gender is checked first, then the name,
  the email, the phone and the age.
\<close>

theorem recipient_validation_first_error:
  "(validate_div d = None \<longleftrightarrow>
      recipient_gender d \<noteq> [] \<and> recipient_name d \<noteq> [] \<and> recipient_email d \<noteq> [] \<and>
      length (recipient_phone d) = 10 \<and> (\<exists>n. parseInt (recipient_age d) = Some n \<and> n \<noteq> 0)) \<and>
   validate_divs divs (None, pushed) =
     (case find (\<lambda>d. validate_div d \<noteq> None) divs of
        None \<Rightarrow> (None, pushed @ map recipient_of divs)
      | Some bad \<Rightarrow> (validate_div bad,
                     pushed @ map recipient_of (takeWhile (\<lambda>d. validate_div d = None) divs))) \<and>
   validate_div d =
     (if recipient_gender d = [] then Some ''Please select a gender for all care recipients''
      else if recipient_name d = [] then Some ''Full name is required for all care recipients''
      else if recipient_email d = [] then Some ''Email is required for all care recipients''
      else if length (recipient_phone d) \<noteq> 10
        then Some ''Valid 10-digit phone number is required for all care recipients''
      else if parseInt (recipient_age d) = None \<or> parseInt (recipient_age d) = Some 0
        then Some ''Valid age is required for all care recipients''
      else None)"
proof (intro conjI)
  show "validate_div d = None \<longleftrightarrow>
      recipient_gender d \<noteq> [] \<and> recipient_name d \<noteq> [] \<and> recipient_email d \<noteq> [] \<and>
      length (recipient_phone d) = 10 \<and> (\<exists>n. parseInt (recipient_age d) = Some n \<and> n \<noteq> 0)"
    by (rule validate_div_ok)
next
  show "validate_divs divs (None, pushed) =
     (case find (\<lambda>d. validate_div d \<noteq> None) divs of
        None \<Rightarrow> (None, pushed @ map recipient_of divs)
      | Some bad \<Rightarrow> (validate_div bad,
                     pushed @ map recipient_of (takeWhile (\<lambda>d. validate_div d = None) divs)))"
    by (rule validate_divs_first)
next
  show "validate_div d =
     (if recipient_gender d = [] then Some ''Please select a gender for all care recipients''
      else if recipient_name d = [] then Some ''Full name is required for all care recipients''
      else if recipient_email d = [] then Some ''Email is required for all care recipients''
      else if length (recipient_phone d) \<noteq> 10
        then Some ''Valid 10-digit phone number is required for all care recipients''
      else if parseInt (recipient_age d) = None \<or> parseInt (recipient_age d) = Some 0
        then Some ''Valid age is required for all care recipients''
      else None)"
    by (auto simp: validate_eval split: option.splits)
qed

theorem recipient_validation_first_error_witness:
  "validate_div sample_recipient = None \<and>
   validate_divs [sample_recipient, sample_recipient\<lparr>recipient_name := [], recipient_age := ''0''\<rparr>,
                  sample_recipient\<lparr>recipient_gender := []\<rparr>] (None, []) =
     (Some ''Full name is required for all care recipients'', [recipient_of sample_recipient])"
proof -
  let ?bad = "sample_recipient\<lparr>recipient_name := [], recipient_age := ''0''\<rparr>"
  let ?worse = "sample_recipient\<lparr>recipient_gender := []\<rparr>"
  have age: "parseInt (recipient_age sample_recipient) = Some 70"
    by (simp add: sample_recipient_def parseInt_eval)
  have fields: "recipient_gender sample_recipient \<noteq> []" "recipient_name sample_recipient \<noteq> []"
    "recipient_email sample_recipient \<noteq> []" "length (recipient_phone sample_recipient) = 10"
    by (simp_all add: sample_recipient_def)
  have ok: "validate_div sample_recipient = None"
    using recipient_validation_first_error [of sample_recipient "[]" "[]"] age fields by simp
  have bad: "validate_div ?bad = Some ''Full name is required for all care recipients''"
    using recipient_validation_first_error [of ?bad "[]" "[]"]
    by (simp add: sample_recipient_def)
  have "validate_divs [sample_recipient, ?bad, ?worse] (None, []) =
     (Some ''Full name is required for all care recipients'', [recipient_of sample_recipient])"
    using recipient_validation_first_error [of sample_recipient "[sample_recipient, ?bad, ?worse]" "[]"]
      ok bad by simp
  with ok show ?thesis by simp
qed

section \<open>Properties of the report uploads\<close>

lemma upload_reports_step:
  assumes "i < min (length ds) (length ids)"
  shows "upload_reports i ds ids answers tok =
     (if upload_of ds ids tok i = [] then upload_reports (i + 1) ds ids answers tok
      else case upload_error (answers i) of
             Some message \<Rightarrow> (upload_of ds ids tok i, Some message)
           | None \<Rightarrow> (upload_of ds ids tok i @ fst (upload_reports (i + 1) ds ids answers tok),
                      snd (upload_reports (i + 1) ds ids answers tok)))"
  using assms
  by (subst upload_reports.simps)
     (auto simp: upload_of_def Let_def split: option.splits list.splits prod.splits)

lemma upload_reports_end:
  "min (length ds) (length ids) \<le> i \<Longrightarrow> upload_reports i ds ids answers tok = ([], None)"
  by (subst upload_reports.simps) auto

lemma upt_min_step: "i < m \<Longrightarrow> [i ..< m] = i # [i + 1 ..< m]"
  by (simp add: upt_conv_Cons)

lemma upload_of_length: "length (upload_of ds ids tok i) \<le> 1"
  by (simp add: upload_of_def split: option.splits list.splits)

lemma upload_reports_prefix:
  "\<exists>k. fst (upload_reports i ds ids answers tok) =
        take k (concat (map (upload_of ds ids tok) [i ..< min (length ds) (length ids)]))"
proof (induction "min (length ds) (length ids) - i" arbitrary: i)
  case 0
  then show ?case by (simp add: upload_reports_end)
next
  case (Suc n)
  let ?m = "min (length ds) (length ids)"
  from Suc.hyps(2) have less: "i < ?m" by linarith
  note step = upload_reports_step [OF less, of answers tok]
  have range: "[i ..< ?m] = i # [i + 1 ..< ?m]" using less by (rule upt_min_step)
  from Suc.hyps(2) have "n = ?m - (i + 1)" by linarith
  then obtain k where k: "fst (upload_reports (i + 1) ds ids answers tok) =
      take k (concat (map (upload_of ds ids tok) [i + 1 ..< ?m]))"
    using Suc.hyps(1) by blast
  show ?case
  proof (cases "upload_of ds ids tok i = []")
    case True
    then show ?thesis using step k range by auto
  next
    case False
    then have one: "length (upload_of ds ids tok i) = 1"
      using upload_of_length [of ds ids tok i] by (cases "upload_of ds ids tok i") auto
    show ?thesis
    proof (cases "upload_error (answers i)")
      case (Some message)
      then have "fst (upload_reports i ds ids answers tok) =
          take 1 (concat (map (upload_of ds ids tok) [i ..< ?m]))"
        using step False one range by simp
      then show ?thesis by blast
    next
      case None
      then have "fst (upload_reports i ds ids answers tok) =
          take (Suc k) (concat (map (upload_of ds ids tok) [i ..< ?m]))"
        using step False one k range by (cases "upload_of ds ids tok i") auto
      then show ?thesis by blast
    qed
  qed
qed

lemma upload_reports_all:
  assumes "\<forall>j. upload_error (answers j) = None"
  shows "upload_reports i ds ids answers tok =
        (concat (map (upload_of ds ids tok) [i ..< min (length ds) (length ids)]), None)"
proof (induction "min (length ds) (length ids) - i" arbitrary: i)
  case 0
  then show ?case by (simp add: upload_reports_end)
next
  case (Suc n)
  let ?m = "min (length ds) (length ids)"
  from Suc.hyps(2) have less: "i < ?m" by linarith
  note step = upload_reports_step [OF less, of answers tok]
  have range: "[i ..< ?m] = i # [i + 1 ..< ?m]" using less by (rule upt_min_step)
  from Suc.hyps(2) have "n = ?m - (i + 1)" by linarith
  then have "upload_reports (i + 1) ds ids answers tok =
      (concat (map (upload_of ds ids tok) [i + 1 ..< ?m]), None)"
    using Suc.hyps(1) by blast
  then show ?case using step range assms by simp
qed

lemma upload_of_take:
  "i < length ids \<Longrightarrow> i < length ds \<Longrightarrow> upload_of (take (length ids) ds) ids tok i = upload_of ds ids tok i"
  by (simp add: upload_of_def)

lemma upload_reports_take:
  "upload_reports i (take (length ids) ds) ids answers tok = upload_reports i ds ids answers tok"
proof (induction "min (length ds) (length ids) - i" arbitrary: i)
  case 0
  then have "min (length ds) (length ids) \<le> i"
    and "min (length (take (length ids) ds)) (length ids) \<le> i" by simp_all
  then show ?case by (simp only: upload_reports_end)
next
  case (Suc n)
  let ?m = "min (length ds) (length ids)"
  from Suc.hyps(2) have less: "i < ?m" by linarith
  then have less': "i < min (length (take (length ids) ds)) (length ids)" by simp
  from Suc.hyps(2) have "n = ?m - (i + 1)" by linarith
  then have later: "upload_reports (i + 1) (take (length ids) ds) ids answers tok =
      upload_reports (i + 1) ds ids answers tok"
    using Suc.hyps(1) by blast
  have same: "upload_of (take (length ids) ds) ids tok i = upload_of ds ids tok i"
    using less by (simp add: upload_of_take)
  show ?case
    by (simp only: upload_reports_step [OF less] upload_reports_step [OF less'] later same)
qed

lemma paired_uploads_mem:
  assumes "r \<in> set (paired_uploads ds ids tok)"
  shows "\<exists>i f others. i < min (length ds) (length ids) \<and>
           recipient_report (ds ! i) = Some (f # others) \<and> r = ReportUpload (ids ! i) f tok"
proof -
  from assms obtain i where "i < min (length ds) (length ids)" "r \<in> set (upload_of ds ids tok i)"
    by (auto simp: paired_uploads_def)
  then show ?thesis
    by (cases "recipient_report (ds ! i)"; cases "the (recipient_report (ds ! i))")
       (auto simp: upload_of_def)
qed

text \<open>
  Claim C10. After a successful signup the upload loop sends a report only for a block
  among the first \<open>min\<close> (blocks on the page, created recipients), to the id at the same
  index, and only when the block has a file; the requests are a prefix of those uploads in
  page order, and all of them when no upload fails. The blocks at or beyond the length of
  the server's list change nothing: the loop does the same, and throws nothing more, with
  those blocks removed, whatever files they hold.
\<close>

theorem reports_uploaded_by_index:
  fixes recipientDivsAfter createdRecipients answers token
  defines "run \<equiv> upload_reports 0 recipientDivsAfter createdRecipients answers token"
  shows "(\<forall>r \<in> set (fst run). \<exists>i f others.
            i < min (length recipientDivsAfter) (length createdRecipients) \<and>
            recipient_report (recipientDivsAfter ! i) = Some (f # others) \<and>
            r = ReportUpload (createdRecipients ! i) f token) \<and>
         (\<exists>k. fst run = take k (paired_uploads recipientDivsAfter createdRecipients token)) \<and>
         ((\<forall>j. upload_error (answers j) = None) \<longrightarrow>
            run = (paired_uploads recipientDivsAfter createdRecipients token, None)) \<and>
         upload_reports 0 (take (length createdRecipients) recipientDivsAfter)
           createdRecipients answers token = run"
proof -
  obtain k where k: "fst run = take k (paired_uploads recipientDivsAfter createdRecipients token)"
    unfolding run_def paired_uploads_def using upload_reports_prefix by blast
  then have "set (fst run) \<subseteq> set (paired_uploads recipientDivsAfter createdRecipients token)"
    by (simp add: set_take_subset)
  then have 1: "\<forall>r \<in> set (fst run). \<exists>i f others.
            i < min (length recipientDivsAfter) (length createdRecipients) \<and>
            recipient_report (recipientDivsAfter ! i) = Some (f # others) \<and>
            r = ReportUpload (createdRecipients ! i) f token"
    using paired_uploads_mem by blast
  have 3: "(\<forall>j. upload_error (answers j) = None) \<longrightarrow>
            run = (paired_uploads recipientDivsAfter createdRecipients token, None)"
    unfolding run_def paired_uploads_def using upload_reports_all by blast
  have 4: "upload_reports 0 (take (length createdRecipients) recipientDivsAfter)
           createdRecipients answers token = run"
    unfolding run_def by (rule upload_reports_take)
  from 1 k 3 4 show ?thesis by blast
qed

theorem reports_uploaded_by_index_witness:
  "upload_reports 0 [sample_recipient, sample_recipient\<lparr>recipient_report := Some []\<rparr>, sample_recipient]
     [7, 8] (\<lambda>i. UploadAccepted) (Some ''token'') = ([ReportUpload 7 ''report.pdf'' (Some ''token'')], None) \<and>
   upload_reports 0 [sample_recipient, sample_recipient\<lparr>recipient_report := Some []\<rparr>]
     [7, 8] (\<lambda>i. UploadAccepted) (Some ''token'') = ([ReportUpload 7 ''report.pdf'' (Some ''token'')], None)"
proof -
  let ?divs = "[sample_recipient, sample_recipient\<lparr>recipient_report := Some []\<rparr>, sample_recipient]"
  have ok: "\<forall>j. upload_error ((\<lambda>i. UploadAccepted) j) = None"
    by (simp add: upload_error_def)
  have paired: "paired_uploads ?divs [7, 8] (Some ''token'') = [ReportUpload 7 ''report.pdf'' (Some ''token'')]"
    by (simp add: paired_uploads_def upload_of_def sample_recipient_def upt_rec)
  from reports_uploaded_by_index [of ?divs "[7, 8]" "\<lambda>i. UploadAccepted" "Some ''token''"]
  show ?thesis using ok paired by simp
qed

text \<open>The loop inside the handler: after a signup the server accepted, the requests sent
  are the signup followed by the uploads of the loop, made with the token then stored.\<close>

lemma submit_handler_uploads:
  assumes "validate_form formData divs = Inr payload"
  shows "sent (submit_handler formData divs
           (SignupResponse True detail (Some \<lparr>access_token = Some t, created_recipients = Some ids\<rparr>))
           divsAfter answers token) =
         Signup payload #
           fst (upload_reports 0 divsAfter ids answers (if t = [] then token else Some t))"
  using assms
  by (simp add: submit_handler_def Let_def split: prod.splits option.splits)

section \<open>Properties of the status polling\<close>

lemma poll_rounds:
  assumes "\<forall>a \<in> set before. still_processing a"
  shows "pollProcessingStatus (before @ rest) results =
           concat (map polling_round before) @ pollProcessingStatus rest results"
  using assms
proof (induction before)
  case Nil
  show ?case by simp
next
  case (Cons a before)
  then obtain status progress message where a: "a = StatusData status progress message"
    and s: "status \<noteq> ''completed''" "status \<noteq> ''error''"
    by (cases a) auto
  from Cons have "pollProcessingStatus (before @ rest) results =
      concat (map polling_round before) @ pollProcessingStatus rest results" by simp
  then show ?case using a s
    by (simp add: polling_round_def [of "StatusData status progress message"])
qed

lemma count_progress_shown [simp]:
  "count_list (progress_shown a) FetchStatus = 0"
  "count_list (progress_shown a) FetchResults = 0"
  "count_list (progress_shown a) (SetTimeout n) = 0"
  by (auto simp: progress_shown_def split: status_response.splits option.splits)

lemma count_showProcessingResults [simp]:
  "count_list (showProcessingResults results) FetchStatus = 0"
  "count_list (showProcessingResults results) FetchResults = 1"
  "count_list (showProcessingResults results) (SetTimeout n) = 0"
  by (auto simp: showProcessingResults_def split: results_response.splits)

lemma count_rounds [simp]:
  "count_list (concat (map polling_round before)) FetchStatus = length before"
  "count_list (concat (map polling_round before)) FetchResults = 0"
  "count_list (concat (map polling_round before)) (SetTimeout 2000) = length before"
  by (induction before) (auto simp: polling_round_def)

text \<open>
  Claim C8. Whatever answers the status endpoint gives while the job is not finished
  (\<open>before\<close>, each with a status other than \<open>completed\<close> and \<open>error\<close>), followed by an
  answer with status \<open>completed\<close> or \<open>error\<close>: the page polls once for each of them, a
  timer of 2000 ms between two polls, and once more for the final answer, after which it
  never polls again, whatever the endpoint would still answer (\<open>after\<close>); on \<open>completed\<close>
  it fetches the results exactly once, on \<open>error\<close> not at all. While no final answer has
  come, the page has sent one poll more than it has answers and has not fetched results.
\<close>

theorem polling_until_job_finished:
  assumes "\<forall>a \<in> set before. still_processing a"
  shows "pollProcessingStatus (before @ StatusData ''completed'' progress message # after) results =
           concat (map polling_round before) @ FetchStatus #
             progress_shown (StatusData ''completed'' progress message) @
             showProcessingResults results \<and>
         count_list (pollProcessingStatus (before @ StatusData ''completed'' progress message # after)
                       results) FetchStatus = length before + 1 \<and>
         count_list (pollProcessingStatus (before @ StatusData ''completed'' progress message # after)
                       results) FetchResults = 1 \<and>
         count_list (pollProcessingStatus (before @ StatusData ''completed'' progress message # after)
                       results) (SetTimeout 2000) = length before \<and>
         count_list (pollProcessingStatus (before @ StatusData ''error'' progress message # after)
                       results) FetchStatus = length before + 1 \<and>
         count_list (pollProcessingStatus (before @ StatusData ''error'' progress message # after)
                       results) FetchResults = 0 \<and>
         count_list (pollProcessingStatus before results) FetchStatus = length before + 1 \<and>
         count_list (pollProcessingStatus before results) FetchResults = 0"
proof -
  have completed: "pollProcessingStatus (before @ StatusData ''completed'' progress message # after) results =
      concat (map polling_round before) @ FetchStatus #
        progress_shown (StatusData ''completed'' progress message) @ showProcessingResults results"
    by (simp add: poll_rounds [OF assms])
  have failed: "pollProcessingStatus (before @ StatusData ''error'' progress message # after) results =
      concat (map polling_round before) @ FetchStatus #
        progress_shown (StatusData ''error'' progress message) @
        [ShowError (Message (or_default (Some (or_default message ''Processing failed''))
                               ''Error checking processing status''))]"
    by (simp add: poll_rounds [OF assms])
  have pending: "pollProcessingStatus before results =
      concat (map polling_round before) @ [FetchStatus]"
    using poll_rounds [OF assms, of "[]" results] by simp
  show ?thesis
    unfolding completed failed pending by simp
qed

theorem polling_until_job_finished_witness:
  "pollProcessingStatus [StatusData ''processing'' (Some 40) None, StatusData ''completed'' None None,
                         StatusData ''processing'' (Some 50) None] (ResultsData 2) =
     [FetchStatus, ShowProgress 40 ''Processing...'', SetTimeout 2000,
      FetchStatus, FetchResults, RenderResults 2]"
proof -
  have "\<forall>a \<in> set [StatusData ''processing'' (Some 40) None]. still_processing a" by simp
  from polling_until_job_finished [OF this, of None None "[StatusData ''processing'' (Some 50) None]"
      "ResultsData 2"]
  show ?thesis
    by (simp add: polling_round_def progress_shown_def showProcessingResults_def or_default_def)
qed

text \<open>A failed status request ends the polling as well; the claim is about the answers
  that carry a status.\<close>

lemma polling_stops_on_failure:
  assumes "\<forall>a \<in> set before. still_processing a"
  shows "pollProcessingStatus (before @ StatusFailed code # after) results =
           concat (map polling_round before) @ [FetchStatus, ShowError (FailedToGetStatus code)]"
  by (simp add: poll_rounds [OF assms])

section \<open>Properties of the face capture\<close>











end
